theory Spec2Isabelle
  imports Main "HOL-Library.Multiset" "HOL-Library.Product_Lexorder" "HOL-Library.AList"
begin

section \<open>Python strings, integers and paths\<close>

text \<open>
  A Python \<^verbatim>\<open>str\<close> is a sequence of Unicode characters. It is modelled by its UTF-8
  encoding: a \<open>string\<close>, whose \<open>char\<close>s are bytes. File names, checkpoint keys and result
  texts are such strings. Python integers are unbounded: \<open>int\<close>.
\<close>

datatype error = ValueError

subsection \<open>The characters of a string\<close>

definition byte :: "char \<Rightarrow> int" where
  "byte c = of_char c"

text \<open>
  A continuation byte is \<open>10xxxxxx\<close>; a lead byte \<open>110xxxxx\<close>, \<open>1110xxxx\<close> or
  \<open>11110xxx\<close> announces one, two or three of them.
\<close>

definition is_cont :: "char \<Rightarrow> bool" where
  "is_cont c = (128 \<le> byte c \<and> byte c < 192)"

definition seq_len :: "char \<Rightarrow> nat" where
  "seq_len c =
     (if byte c < 194 then 0 else if byte c < 224 then 1 else if byte c < 240 then 2
      else if byte c < 245 then 3 else 0)"

text \<open>
  The characters of a string, each as the bytes that encode it. Iterating over a
  \<^verbatim>\<open>str\<close>, as \<^verbatim>\<open>filter\<close> and \<^verbatim>\<open>strip\<close> do, goes through these.
\<close>

function utf8_chars :: "string \<Rightarrow> string list" where
  "utf8_chars [] = []"
| "utf8_chars (c # cs) =
     (c # takeWhile is_cont (take (seq_len c) cs)) #
     utf8_chars (drop (length (takeWhile is_cont (take (seq_len c) cs))) cs)"
  by pat_completeness auto

termination
  by (relation "measure length") auto

text \<open>The code point of a character; \<open>None\<close> for bytes that encode no character.\<close>

definition code_point :: "string \<Rightarrow> int option" where
  "code_point u =
     (case u of
        [] \<Rightarrow> None
      | c # cs \<Rightarrow>
          if length cs \<noteq> seq_len c \<or> \<not> list_all is_cont cs then None
          else (case map byte cs of
                  [] \<Rightarrow> if byte c < 128 then Some (byte c) else None
                | [b1] \<Rightarrow> Some ((byte c - 192) * 64 + (b1 - 128))
                | [b1, b2] \<Rightarrow>
                    (let cp = (byte c - 224) * 4096 + (b1 - 128) * 64 + (b2 - 128)
                     in if 2048 \<le> cp then Some cp else None)
                | [b1, b2, b3] \<Rightarrow>
                    (let cp = (byte c - 240) * 262144 + (b1 - 128) * 4096 + (b2 - 128) * 64 +
                              (b3 - 128)
                     in if 65536 \<le> cp \<and> cp < 1114112 then Some cp else None)
                | _ \<Rightarrow> None))"

subsection \<open>Character classes\<close>

text \<open>
  The classes are those of the Unicode character database, version 14.0 (the one of
  CPython 3.11). Outside ASCII, the decimal digits (category \<open>Nd\<close>) come in runs of ten,
  \<open>0\<close> to \<open>9\<close>, listed by their zero.
\<close>

definition decimal_zeros :: "int list" where
  "decimal_zeros =
     [0x660, 0x6F0, 0x7C0, 0x966, 0x9E6, 0xA66, 0xAE6, 0xB66,
      0xBE6, 0xC66, 0xCE6, 0xD66, 0xDE6, 0xE50, 0xED0, 0xF20,
      0x1040, 0x1090, 0x17E0, 0x1810, 0x1946, 0x19D0, 0x1A80, 0x1A90,
      0x1B50, 0x1BB0, 0x1C40, 0x1C50, 0xA620, 0xA8D0, 0xA900, 0xA9D0,
      0xA9F0, 0xAA50, 0xABF0, 0xFF10, 0x104A0, 0x10D30, 0x11066, 0x110F0,
      0x11136, 0x111D0, 0x112F0, 0x11450, 0x114D0, 0x11650, 0x116C0, 0x11730,
      0x118E0, 0x11950, 0x11C50, 0x11D50, 0x11DA0, 0x16A60, 0x16AC0, 0x16B50,
      0x1D7CE, 0x1D7D8, 0x1D7E2, 0x1D7EC, 0x1D7F6, 0x1E140, 0x1E2F0, 0x1E950,
      0x1FBF0]"

text \<open>
  The characters with a digit value that are no decimal digits: superscripts and
  subscripts, circled and parenthesised digits, and the like. \<^verbatim>\<open>str.isdigit\<close> holds of
  them and \<^verbatim>\<open>int\<close> does not read them.
\<close>

definition other_digit_ranges :: "(int \<times> int) list" where
  "other_digit_ranges =
     [(0xB2, 0xB3), (0xB9, 0xB9), (0x1369, 0x1371), (0x19DA, 0x19DA),
      (0x2070, 0x2070), (0x2074, 0x2079), (0x2080, 0x2089), (0x2460, 0x2468),
      (0x2474, 0x247C), (0x2488, 0x2490), (0x24EA, 0x24EA), (0x24F5, 0x24FD),
      (0x24FF, 0x24FF), (0x2776, 0x277E), (0x2780, 0x2788), (0x278A, 0x2792),
      (0x10A40, 0x10A43), (0x10E60, 0x10E68), (0x11052, 0x1105A), (0x1F100, 0x1F10A)]"

text \<open>White space outside ASCII.\<close>

definition space_ranges :: "(int \<times> int) list" where
  "space_ranges =
     [(0x85, 0x85), (0xA0, 0xA0), (0x1680, 0x1680), (0x2000, 0x200A),
      (0x2028, 0x2029), (0x202F, 0x202F), (0x205F, 0x205F), (0x3000, 0x3000)]"

definition in_ranges :: "(int \<times> int) list \<Rightarrow> int \<Rightarrow> bool" where
  "in_ranges rs cp = list_ex (\<lambda>r. fst r \<le> cp \<and> cp \<le> snd r) rs"

text \<open>The value of a decimal digit, given its code point.\<close>

definition decimal_value :: "int \<Rightarrow> int option" where
  "decimal_value cp =
     (if cp < 128 then (if 48 \<le> cp \<and> cp \<le> 57 then Some (cp - 48) else None)
      else (case find (\<lambda>z. z \<le> cp \<and> cp < z + 10) decimal_zeros of
              None \<Rightarrow> None
            | Some z \<Rightarrow> Some (cp - z)))"

definition space_cp :: "int \<Rightarrow> bool" where
  "space_cp cp =
     (if cp < 128 then (9 \<le> cp \<and> cp \<le> 13) \<or> (28 \<le> cp \<and> cp \<le> 32)
      else in_ranges space_ranges cp)"

text \<open>\<^verbatim>\<open>str.isdecimal\<close>, \<^verbatim>\<open>str.isdigit\<close> and \<^verbatim>\<open>str.isspace\<close> of one character.\<close>

definition isdecimal :: "string \<Rightarrow> bool" where
  "isdecimal u = (case code_point u of None \<Rightarrow> False | Some cp \<Rightarrow> decimal_value cp \<noteq> None)"

definition isdigit :: "string \<Rightarrow> bool" where
  "isdigit u =
     (case code_point u of
        None \<Rightarrow> False
      | Some cp \<Rightarrow> decimal_value cp \<noteq> None \<or> in_ranges other_digit_ranges cp)"

definition isspace :: "string \<Rightarrow> bool" where
  "isspace u = (case code_point u of None \<Rightarrow> False | Some cp \<Rightarrow> space_cp cp)"

text \<open>\<^verbatim>\<open>''.join(filter(pred, s))\<close>: the characters of \<open>s\<close> that satisfy \<open>pred\<close>.\<close>

definition join_filter :: "(string \<Rightarrow> bool) \<Rightarrow> string \<Rightarrow> string" where
  "join_filter pred s = concat (filter pred (utf8_chars s))"

text \<open>\<^verbatim>\<open>s.strip()\<close>: leading and trailing white space removed.\<close>

definition strip :: "string \<Rightarrow> string" where
  "strip s = concat (rev (dropWhile isspace (rev (dropWhile isspace (utf8_chars s)))))"

subsection \<open>Integers and their decimal form\<close>

definition ascii_digit :: "char \<Rightarrow> bool" where
  "ascii_digit c = (c \<in> set ''0123456789'')"

definition digit_val :: "char \<Rightarrow> nat" where
  "digit_val c = of_char c - 48"

definition digit_chr :: "nat \<Rightarrow> char" where
  "digit_chr d = ''0123456789'' ! d"

text \<open>The value of a string of ASCII digits, most significant digit first.\<close>

definition dec_value :: "string \<Rightarrow> nat" where
  "dec_value ds = foldl (\<lambda>n c. 10 * n + digit_val c) 0 ds"

text \<open>
  The digit groups that \<^verbatim>\<open>int()\<close> accepts: digits, with single underscores allowed
  between two digits.
\<close>

fun int_body_ok :: "string \<Rightarrow> bool" where
  "int_body_ok [] = False"
| "int_body_ok [c] = ascii_digit c"
| "int_body_ok (c # d # cs) =
     (ascii_digit c \<and> (if d = CHR ''_'' then int_body_ok cs else int_body_ok (d # cs)))"

text \<open>
  \<^verbatim>\<open>int(s)\<close> of a \<^verbatim>\<open>str\<close>, in base ten, works in two steps. A string with a character
  outside ASCII is first brought to ASCII, character by character: a character below
  \<open>127\<close> is kept, a white-space character becomes a blank, a decimal digit of any script
  becomes the ASCII digit of its value, and anything else becomes a question mark. A
  string that is ASCII already is taken as it is.
\<close>

definition to_ascii :: "string \<Rightarrow> char" where
  "to_ascii u =
     (case code_point u of
        None \<Rightarrow> CHR ''?''
      | Some cp \<Rightarrow>
          if cp < 127 then hd u
          else if space_cp cp then CHR '' ''
          else (case decimal_value cp of
                  None \<Rightarrow> CHR ''?''
                | Some d \<Rightarrow> digit_chr (nat d)))"

definition int_ascii :: "string \<Rightarrow> string" where
  "int_ascii s = (if list_all (\<lambda>c. byte c < 128) s then s else map to_ascii (utf8_chars s))"

text \<open>
  The ASCII string is then parsed: the white space of C (blank, tab, line feed, vertical
  tab, form feed, carriage return) is dropped at both ends, one sign is allowed, and the
  rest must be a digit group; anything else raises \<^verbatim>\<open>ValueError\<close>, here \<open>None\<close>.
\<close>

definition c_space :: "char \<Rightarrow> bool" where
  "c_space c = (c \<in> set [CHR '' '', CHR 0x09, CHR 0x0A, CHR 0x0B, CHR 0x0C, CHR 0x0D])"

definition parse_int :: "string \<Rightarrow> int option" where
  "parse_int a =
     (let t = rev (dropWhile c_space (rev (dropWhile c_space a)));
          neg = (t \<noteq> [] \<and> hd t = CHR ''-'');
          body = (if t \<noteq> [] \<and> (hd t = CHR ''-'' \<or> hd t = CHR ''+'') then tl t else t)
      in if int_body_ok body
         then Some ((if neg then -1 else 1) * int (dec_value (filter ascii_digit body)))
         else None)"

definition py_int :: "string \<Rightarrow> int option" where
  "py_int s = parse_int (int_ascii s)"

text \<open>\<^verbatim>\<open>str(n)\<close> for an integer: decimal digits, no leading zero, a minus sign if negative.\<close>

fun str_nat :: "nat \<Rightarrow> string" where
  "str_nat n = (if n < 10 then [digit_chr n] else str_nat (n div 10) @ [digit_chr (n mod 10)])"

declare str_nat.simps [simp del]

definition py_str :: "int \<Rightarrow> string" where
  "py_str i = (if i < 0 then CHR ''-'' # str_nat (nat (- i)) else str_nat (nat i))"

subsection \<open>posixpath\<close>

definition is_sep :: "char \<Rightarrow> bool" where
  "is_sep c = (c = CHR ''/'')"

text \<open>\<^verbatim>\<open>os.path.basename(p)\<close>: what follows the last slash.\<close>

definition basename :: "string \<Rightarrow> string" where
  "basename p = rev (takeWhile (\<lambda>c. \<not> is_sep c) (rev p))"

text \<open>
  \<^verbatim>\<open>os.path.dirname(p)\<close>: everything up to the last slash, with trailing slashes removed
  unless the head consists of slashes only.
\<close>

definition dirname :: "string \<Rightarrow> string" where
  "dirname p =
     (let head = rev (dropWhile (\<lambda>c. \<not> is_sep c) (rev p))
      in if head \<noteq> [] \<and> \<not> list_all is_sep head
         then rev (dropWhile is_sep (rev head)) else head)"

text \<open>
  \<^verbatim>\<open>os.path.splitext(p)\<close>: the extension starts at the last dot of the last path component,
  provided some character of that component before the dot is not a dot itself.
\<close>

definition splitext :: "string \<Rightarrow> string \<times> string" where
  "splitext p =
     (let tail = basename p;
          ext_rev = takeWhile (\<lambda>c. c \<noteq> CHR ''.'') (rev tail);
          root_tail = take (length tail - length ext_rev - 1) tail
      in if CHR ''.'' \<in> set tail \<and> list_ex (\<lambda>c. c \<noteq> CHR ''.'') root_tail
         then (take (length p - length ext_rev - 1) p, CHR ''.'' # rev ext_rev)
         else (p, []))"

text \<open>\<^verbatim>\<open>os.path.join(a, b)\<close> for two components.\<close>

definition join :: "string \<Rightarrow> string \<Rightarrow> string" where
  "join a b =
     (if b \<noteq> [] \<and> is_sep (hd b) then b
      else if a = [] \<or> is_sep (last a) then a @ b
      else a @ ''/'' @ b)"

text \<open>\<^verbatim>\<open>s.lower()\<close> on the ASCII letters, and \<^verbatim>\<open>s.endswith(e)\<close>.\<close>

definition lower_chr :: "char \<Rightarrow> char" where
  "lower_chr c =
     (case map_of (zip ''ABCDEFGHIJKLMNOPQRSTUVWXYZ'' ''abcdefghijklmnopqrstuvwxyz'') c of
        Some l \<Rightarrow> l
      | None \<Rightarrow> c)"

definition lower :: "string \<Rightarrow> string" where
  "lower s = map lower_chr s"

definition endswith :: "string \<Rightarrow> string \<Rightarrow> bool" where
  "endswith s e = (length e \<le> length s \<and> drop (length s - length e) s = e)"

section \<open>The file system the loaders see\<close>

text \<open>
  What \<^verbatim>\<open>os.path.isdir\<close>, \<^verbatim>\<open>os.listdir\<close> and \<^verbatim>\<open>os.path.exists\<close> answer is a
  parameter of the model.
\<close>

record filesystem =
  path_isdir :: "string \<Rightarrow> bool"
  os_listdir :: "string \<Rightarrow> string list"
  path_exists :: "string \<Rightarrow> bool"

text \<open>A file system given by the list of the paths that exist, for concrete runs.\<close>

definition fs_of :: "string \<Rightarrow> string list \<Rightarrow> filesystem" where
  "fs_of dir names =
     \<lparr>path_isdir = (\<lambda>p. p = dir),
      os_listdir = (\<lambda>p. if p = dir then names else []),
      path_exists = (\<lambda>p. List.member (map (join dir) names) p)\<rparr>"

section \<open>Item identifiers\<close>

text \<open>
  The digit characters of the file name's stem, in order: as the string the scripts
  build with \<^verbatim>\<open>''.join(filter(str.isdigit, name_part))\<close>, and as the list of these
  characters.
\<close>

definition stem_digits :: "string \<Rightarrow> string" where
  "stem_digits image_path = join_filter isdigit (fst (splitext (basename image_path)))"

definition stem_digit_chars :: "string \<Rightarrow> string list" where
  "stem_digit_chars image_path = filter isdigit (utf8_chars (fst (splitext (basename image_path))))"

text \<open>
  \<^verbatim>\<open>get_image_id_from_path\<close> of the direct-mode script: \<open>None\<close> when the stem has no
  digit, and when \<^verbatim>\<open>int\<close> raises \<^verbatim>\<open>ValueError\<close>, which the function catches.
\<close>

definition get_image_id_from_path :: "string \<Rightarrow> int option" where
  "get_image_id_from_path image_path =
     (let image_name = basename image_path;
          name_part = fst (splitext image_name);
          digits = join_filter isdigit name_part
      in if digits \<noteq> []
         then (case py_int digits of
                 None \<Rightarrow> None
               | Some n \<Rightarrow> Some n)
         else None)"

text \<open>
  \<^verbatim>\<open>get_image_id\<close> of the batch script: \<^verbatim>\<open>int\<close> of the digits, which raises on none
  and on digits it does not read.
\<close>

definition get_image_id :: "string \<Rightarrow> error + int" where
  "get_image_id image_name =
     (let base = basename image_name;
          name_part = fst (splitext base)
      in case py_int (join_filter isdigit name_part) of
           None \<Rightarrow> Inl ValueError
         | Some i \<Rightarrow> Inr i)"

section \<open>Pairing an image with its text file\<close>

text \<open>
  \<^verbatim>\<open>find_matching_text_file\<close> of the direct-mode script (run_gemini_async.py): the two
  names built from the stem are tried first, then the four built from the integer ID.
\<close>

definition id_text_names :: "string \<Rightarrow> string list" where
  "id_text_names ident =
     [''text'' @ ident @ ''.txt'', ''text'' @ ident @ ''.text'', ident @ ''.txt'', ident @ ''.text'']"

definition find_matching_text_file :: "filesystem \<Rightarrow> string \<Rightarrow> string option" where
  "find_matching_text_file fs image_path =
     (let directory = dirname image_path;
          image_base_name_no_ext = fst (splitext (basename image_path));
          exact_match_txt = join directory (image_base_name_no_ext @ ''.txt'');
          exact_match_text = join directory (image_base_name_no_ext @ ''.text'')
      in if path_exists fs exact_match_txt then Some exact_match_txt
         else if path_exists fs exact_match_text then Some exact_match_text
         else case get_image_id_from_path image_path of
                None \<Rightarrow> None
              | Some image_id_num \<Rightarrow>
                  find (path_exists fs) (map (join directory) (id_text_names (py_str image_id_num))))"

text \<open>
  \<^verbatim>\<open>find_matching_text_file\<close> of the batch script (run_vlm_batch.py): nothing is looked for
  when the stem has no digit; otherwise the four names built from the digit string come
  first and the two built from the stem last.
\<close>

definition find_matching_text_file_batch :: "filesystem \<Rightarrow> string \<Rightarrow> string option" where
  "find_matching_text_file_batch fs image_path =
     (let directory = dirname image_path;
          image_base_name = fst (splitext (basename image_path));
          image_id_str = join_filter isdigit image_base_name
      in if image_id_str = [] then None
         else find (path_exists fs)
                (map (join directory)
                   (id_text_names image_id_str @
                    [image_base_name @ ''.txt'', image_base_name @ ''.text''])))"

section \<open>The item loaders\<close>

record item_data =
  image_path :: string
  text_path :: "string option"

definition sort_rank :: "string \<Rightarrow> nat \<times> int" where
  "sort_rank p = (case get_image_id_from_path p of Some i \<Rightarrow> (0, i) | None \<Rightarrow> (1, 0))"

text \<open>
  \<^verbatim>\<open>load_data_items\<close> (direct mode). The sort key is the ID, and infinity for a path
  without one: such a path sorts last and stays in the list.
\<close>

definition paired_item :: "filesystem \<Rightarrow> string \<Rightarrow> item_data option" where
  "paired_item fs img_path =
     (case find_matching_text_file fs img_path of
        None \<Rightarrow> None
      | Some t \<Rightarrow>
          if t \<noteq> [] \<and> path_exists fs t then Some \<lparr>image_path = img_path, text_path = Some t\<rparr>
          else None)"

definition load_data_items :: "filesystem \<Rightarrow> string \<Rightarrow> item_data list \<times> item_data list" where
  "load_data_items fs data_dir =
     (if \<not> path_isdir fs data_dir then ([], [])
      else
        let all_files = os_listdir fs data_dir;
            image_paths_found =
              sort_key sort_rank
                (map (join data_dir)
                   (filter (\<lambda>f. list_ex (endswith (lower f)) [''.png'', ''.jpg'', ''.jpeg'', ''.webp''])
                      all_files));
            limited = take 1000 image_paths_found
        in (map (\<lambda>p. \<lparr>image_path = p, text_path = None\<rparr>)
              (filter (\<lambda>p. paired_item fs p = None) limited),
            List.map_filter (paired_item fs) limited))"

text \<open>
  \<^verbatim>\<open>load_images_and_texts\<close> (batch mode). \<open>unique_images_dict\<close> keeps the first path of
  each ID; a path whose ID does not parse is skipped with a warning.
\<close>

fun unique_images :: "string list \<Rightarrow> (int \<times> string) list \<Rightarrow> (int \<times> string) list" where
  "unique_images [] d = d"
| "unique_images (img_path # rest) d =
     (case get_image_id img_path of
        Inl ValueError \<Rightarrow> unique_images rest d
      | Inr img_id \<Rightarrow>
          if img_id \<in> fst ` set d then unique_images rest d
          else unique_images rest (d @ [(img_id, img_path)]))"

definition paired_image :: "filesystem \<Rightarrow> string \<Rightarrow> (string \<times> string) option" where
  "paired_image fs img_path =
     (case find_matching_text_file_batch fs img_path of
        None \<Rightarrow> None
      | Some t \<Rightarrow> if t \<noteq> [] \<and> path_exists fs t then Some (img_path, t) else None)"

definition load_images_and_texts ::
  "filesystem \<Rightarrow> string \<Rightarrow> string list \<times> (string \<times> string) list \<times> string list" where
  "load_images_and_texts fs directory =
     (if \<not> path_isdir fs directory then ([], [], [])
      else
        let image_files_found =
              map (join directory)
                (filter (\<lambda>f. list_ex (endswith (lower f)) [''.png'', ''.jpg'', ''.jpeg''])
                   (os_listdir fs directory));
            unique_images_dict = unique_images image_files_found [];
            sorted_image_paths = map snd (sort_key fst unique_images_dict);
            image_text_pairs = List.map_filter (paired_image fs) sorted_image_paths;
            image_only = filter (\<lambda>p. paired_image fs p = None) sorted_image_paths
        in if length sorted_image_paths > 1000
           then (take 1000 sorted_image_paths, take 1000 image_text_pairs, take 1000 image_only)
           else (sorted_image_paths, image_text_pairs, image_only))"

section \<open>The result mapping and the checkpoint\<close>

text \<open>
  A result mapping is a Python \<^verbatim>\<open>dict\<close> (an \<^verbatim>\<open>OrderedDict\<close>) from the string form of an
  ID to the result text: an association list in insertion order. Assigning to a key
  that is present replaces its value in place; a new key goes to the end.
\<close>

type_synonym results = "(string \<times> string) list"

definition dict_set :: "results \<Rightarrow> string \<Rightarrow> string \<Rightarrow> results" where
  "dict_set d k v = AList.update k v d"

text \<open>\<^verbatim>\<open>d.update(e)\<close>, and the dictionary built from a sequence of pairs.\<close>

definition dict_update :: "results \<Rightarrow> results \<Rightarrow> results" where
  "dict_update d e = foldl (\<lambda>acc kv. dict_set acc (fst kv) (snd kv)) d e"

definition dict_of :: "results \<Rightarrow> results" where
  "dict_of pairs = dict_update [] pairs"

definition dict_keys :: "results \<Rightarrow> string list" where
  "dict_keys d = map fst d"

text \<open>
  \<^verbatim>\<open>load_checkpoint\<close>: the object parsed from the checkpoint file, and the empty mapping
  when the file is missing or does not parse (\<open>None\<close>).
\<close>

definition load_checkpoint :: "results option \<Rightarrow> results" where
  "load_checkpoint checkpoint_file = (case checkpoint_file of None \<Rightarrow> [] | Some pairs \<Rightarrow> dict_of pairs)"

text \<open>
  The finalizer, \<^verbatim>\<open>OrderedDict(sorted(task_results.items(), key=lambda kv: int(kv[0])))\<close>:
  a stable sort on the integer value of the keys; \<^verbatim>\<open>int\<close> raises on a key that is no
  integer.
\<close>

definition key_int :: "string \<times> string \<Rightarrow> int" where
  "key_int kv = (case py_int (fst kv) of Some i \<Rightarrow> i | None \<Rightarrow> 0)"

definition sorted_results :: "results \<Rightarrow> error + results" where
  "sorted_results task_results =
     (if list_all (\<lambda>kv. py_int (fst kv) \<noteq> None) task_results
      then Inr (dict_of (sort_key key_int task_results))
      else Inl ValueError)"

section \<open>Direct mode (run_gemini_async.py)\<close>

definition retry_attempts :: nat where
  "retry_attempts = 3"

definition retry_delay :: nat where
  "retry_delay = 5"

definition progress_update_frequency :: nat where
  "progress_update_frequency = 10"

subsection \<open>One model request with retries\<close>

text \<open>
  What one call of \<^verbatim>\<open>model.generate_content\<close> does is a parameter: it raises an
  exception, with the message \<open>e\<close>, or it returns a response with its candidates. Of a
  candidate the model keeps the texts of its parts and the printed forms of its finish
  reason and safety ratings.
\<close>

record candidate =
  parts :: "string list"
  finish_reason :: string
  safety_ratings :: string

datatype api_outcome = Raises string | Responds "candidate list"

text \<open>The body of the \<^verbatim>\<open>try\<close>: \<open>Inr\<close> is a \<^verbatim>\<open>return\<close>, \<open>Inl\<close> the exception caught.\<close>

definition attempt_body :: "api_outcome \<Rightarrow> string + string" where
  "attempt_body out =
     (case out of
        Raises e \<Rightarrow> Inl e
      | Responds candidates \<Rightarrow>
          if candidates \<noteq> [] \<and> parts (hd candidates) \<noteq> []
          then Inr (strip (hd (parts (hd candidates))))
          else
            let reason = (if candidates \<noteq> [] then finish_reason (hd candidates) else ''UNKNOWN'');
                safety = (if candidates \<noteq> [] then safety_ratings (hd candidates) else ''[]'')
            in Inr (''Error: No content in response (Finish reason: '' @ reason @
                    '', Safety: '' @ safety @ '')''))"

record gen_result =
  response_text :: string
  sleeps :: "nat list"
  calls :: nat

text \<open>
  The loop \<^verbatim>\<open>for attempt in range(retry_attempts)\<close>, over the attempts still to make.
  \<open>sleeps\<close> lists the delays slept, in order, and \<open>calls\<close> counts the requests sent.
\<close>

fun retry_loop :: "(nat \<Rightarrow> api_outcome) \<Rightarrow> nat \<Rightarrow> nat \<Rightarrow> nat list \<Rightarrow> gen_result" where
  "retry_loop call attempts delay [] =
     \<lparr>response_text = ''Error: Max retries reached without success.'', sleeps = [], calls = 0\<rparr>"
| "retry_loop call attempts delay (attempt # rest) =
     (case attempt_body (call attempt) of
        Inr text \<Rightarrow> \<lparr>response_text = text, sleeps = [], calls = 1\<rparr>
      | Inl e \<Rightarrow>
          if int attempt < int attempts - 1
          then let r = retry_loop call attempts delay rest
               in r\<lparr>sleeps := (delay * 2 ^ attempt) # sleeps r, calls := Suc (calls r)\<rparr>
          else \<lparr>response_text = ''Error: After '' @ py_str (int attempts) @ '' attempts - '' @ e,
                sleeps = [], calls = 1\<rparr>)"

definition generate_gemini_response :: "(nat \<Rightarrow> api_outcome) \<Rightarrow> nat \<Rightarrow> nat \<Rightarrow> gen_result" where
  "generate_gemini_response call attempts delay = retry_loop call attempts delay [0..<attempts]"

subsection \<open>One item\<close>

text \<open>
  Encoding an image, reading a text file, rendering a prompt and the remote model are
  parameters. \<open>encode_image_to_base64\<close> and \<open>read_text_file\<close> answer \<open>None\<close> where the
  source catches the exception and returns \<^verbatim>\<open>None\<close>. The model's answer to a prompt may
  change from one attempt to the next.
\<close>

type_synonym prompt_parts = "string \<times> string \<times> string"

record direct_env =
  encode_image_to_base64 :: "string \<Rightarrow> (string \<times> string) option"
  read_text_file :: "string \<Rightarrow> string option"
  prompt_image_only :: "nat \<Rightarrow> string"
  prompt_image_text :: "nat \<Rightarrow> string \<Rightarrow> string"
  generate_content :: "prompt_parts \<Rightarrow> nat \<Rightarrow> api_outcome"

record item_result =
  item_key :: string
  item_text :: string
  item_calls :: nat

definition process_single_item_gemini :: "direct_env \<Rightarrow> nat \<Rightarrow> item_data \<Rightarrow> item_result" where
  "process_single_item_gemini env task_num item =
     (case get_image_id_from_path (image_path item) of
        None \<Rightarrow>
          \<lparr>item_key = basename (image_path item), item_text = ''Error: Could not parse image ID'',
           item_calls = 0\<rparr>
      | Some img_id \<Rightarrow>
          (case encode_image_to_base64 env (image_path item) of
             None \<Rightarrow>
               \<lparr>item_key = py_str img_id, item_text = ''Error: Image encoding failed'', item_calls = 0\<rparr>
           | Some (base64_image, mime_type) \<Rightarrow>
               if base64_image = [] then
                 \<lparr>item_key = py_str img_id, item_text = ''Error: Image encoding failed'', item_calls = 0\<rparr>
               else
                 let text = (case text_path item of
                               None \<Rightarrow> Some None
                             | Some tp \<Rightarrow>
                                 if tp = [] then Some None
                                 else (case read_text_file env tp of
                                         None \<Rightarrow> None
                                       | Some text_content \<Rightarrow> Some (Some text_content)))
                 in (case text of
                       None \<Rightarrow>
                         \<lparr>item_key = py_str img_id, item_text = ''Error: Could not read text file'',
                          item_calls = 0\<rparr>
                     | Some content \<Rightarrow>
                         let full_prompt_text =
                               (case content of
                                  Some text_content \<Rightarrow> prompt_image_text env task_num text_content
                                | None \<Rightarrow> prompt_image_only env task_num);
                             r = generate_gemini_response
                                   (generate_content env (full_prompt_text, mime_type, base64_image))
                                   retry_attempts retry_delay
                         in \<lparr>item_key = py_str img_id, item_text = response_text r,
                             item_calls = calls r\<rparr>)))"

subsection \<open>One (language, task) run\<close>

text \<open>
  The loop over \<^verbatim>\<open>asyncio.as_completed\<close>: each result is assigned to its key, and the
  mapping is saved whenever its size is a multiple of the update frequency. The second
  component lists the mappings written to the checkpoint file, oldest first.
\<close>

fun merge_completed :: "item_result list \<Rightarrow> results \<Rightarrow> results list \<Rightarrow> results \<times> results list" where
  "merge_completed [] task_results saves = (task_results, saves)"
| "merge_completed (r # rest) task_results saves =
     (let task_results' = dict_set task_results (item_key r) (item_text r);
          saves' = (if length task_results' mod progress_update_frequency = 0
                    then saves @ [task_results'] else saves)
      in merge_completed rest task_results' saves')"

definition remaining_items :: "results \<Rightarrow> item_data list \<Rightarrow> item_data list" where
  "remaining_items task_results items =
     filter (\<lambda>item_data.
               case get_image_id_from_path (image_path item_data) of
                 None \<Rightarrow> False
               | Some img_id \<Rightarrow> \<not> List.member (dict_keys task_results) (py_str img_id))
       items"

record run_result =
  returned :: "error + results"
  checkpoint_saves :: "results list"
  model_requests :: nat

text \<open>
  \<^verbatim>\<open>run_task_for_language_gemini\<close>. \<open>as_completed\<close> is the order in which the requests
  finish, a rearrangement of the remaining items. What is returned is what \<^verbatim>\<open>main\<close>
  writes as the output artifact of the task.
\<close>

definition run_task_for_language_gemini ::
  "direct_env \<Rightarrow> (item_data list \<Rightarrow> item_data list) \<Rightarrow> nat \<Rightarrow> item_data list \<Rightarrow> item_data list \<Rightarrow>
   results option \<Rightarrow> run_result" where
  "run_task_for_language_gemini env as_completed task_num image_only_items image_text_items
     checkpoint_file =
     (let is_image_text_task = (task_num \<ge> 6);
          items_to_process_info = (if is_image_text_task then image_text_items else image_only_items);
          checkpoint_data = load_checkpoint checkpoint_file;
          task_results = dict_of checkpoint_data;
          remaining = remaining_items task_results items_to_process_info
      in if remaining = []
         then \<lparr>returned = Inr task_results, checkpoint_saves = [], model_requests = 0\<rparr>
         else
           let done = map (process_single_item_gemini env task_num) (as_completed remaining);
               merged = merge_completed done task_results [];
               final_results = fst merged
           in \<lparr>returned = sorted_results final_results,
               checkpoint_saves = snd merged @ [final_results],
               model_requests = sum_list (map item_calls done)\<rparr>)"

section \<open>Batch mode (run_vlm_batch.py)\<close>

definition batch_size :: nat where
  "batch_size = 200"

definition max_retries :: nat where
  "max_retries = 3"

definition max_polls :: nat where
  "max_polls = 120"

subsection \<open>Items still to do\<close>

definition get_remaining_images :: "string list \<Rightarrow> string list \<Rightarrow> string list" where
  "get_remaining_images all_images processed_ids =
     filter (\<lambda>img_path.
               case get_image_id (basename img_path) of
                 Inl ValueError \<Rightarrow> False
               | Inr img_id \<Rightarrow> \<not> List.member processed_ids (py_str img_id))
       all_images"

definition get_remaining_image_text_pairs ::
  "(string \<times> string) list \<Rightarrow> string list \<Rightarrow> (string \<times> string) list" where
  "get_remaining_image_text_pairs all_pairs processed_ids =
     filter (\<lambda>pair.
               case get_image_id (basename (fst pair)) of
                 Inl ValueError \<Rightarrow> False
               | Inr img_id \<Rightarrow> \<not> List.member processed_ids (py_str img_id))
       all_pairs"

subsection \<open>Preparing the requests of a chunk\<close>

text \<open>
  Reading files, the clock behind the correlation IDs and the rendering of the prompt are
  parameters. A request keeps its correlation ID, its prompt and its image; the ID map
  is a dictionary from correlation ID to the item's path and integer ID.
\<close>

record batch_env =
  encode_image :: "string \<Rightarrow> string option"
  read_text_file_batch :: "string \<Rightarrow> string option"
  time_ms :: "string \<Rightarrow> int"
  task_prompt :: string
  format_prompt :: "string \<Rightarrow> string"

record batch_request =
  custom_id :: string
  request_text :: string
  request_image :: string

record id_info =
  info_path :: string
  info_id :: int

type_synonym id_map = "(string \<times> id_info) list"

definition prepare_image_only_step ::
  "batch_env \<Rightarrow> batch_request list \<times> id_map \<Rightarrow> string \<Rightarrow> batch_request list \<times> id_map" where
  "prepare_image_only_step env acc img_path =
     (case get_image_id (basename img_path) of
        Inl ValueError \<Rightarrow> acc
      | Inr img_id \<Rightarrow>
          let cid = ''img_'' @ py_str img_id @ ''_'' @ py_str (time_ms env img_path);
              image_id_map = AList.update cid \<lparr>info_path = img_path, info_id = img_id\<rparr> (snd acc)
          in (case encode_image env img_path of
                None \<Rightarrow> (fst acc, image_id_map)
              | Some encoded_img \<Rightarrow>
                  if encoded_img = [] then (fst acc, image_id_map)
                  else (fst acc @ [\<lparr>custom_id = cid, request_text = task_prompt env,
                                    request_image = encoded_img\<rparr>],
                        image_id_map)))"

definition prepare_batch_file_image_only ::
  "batch_env \<Rightarrow> string list \<Rightarrow> batch_request list option \<times> id_map" where
  "prepare_batch_file_image_only env image_paths =
     (let acc = foldl (prepare_image_only_step env) ([], []) image_paths
      in if fst acc = [] then (None, []) else (Some (fst acc), snd acc))"

definition prepare_image_text_step ::
  "batch_env \<Rightarrow> batch_request list \<times> id_map \<Rightarrow> string \<times> string \<Rightarrow> batch_request list \<times> id_map" where
  "prepare_image_text_step env acc pair =
     (case get_image_id (basename (fst pair)) of
        Inl ValueError \<Rightarrow> acc
      | Inr img_id \<Rightarrow>
          let cid = ''pair_'' @ py_str img_id @ ''_'' @ py_str (time_ms env (fst pair));
              pair_id_map = AList.update cid \<lparr>info_path = fst pair, info_id = img_id\<rparr> (snd acc)
          in (case encode_image env (fst pair) of
                None \<Rightarrow> (fst acc, pair_id_map)
              | Some encoded_img \<Rightarrow>
                  if encoded_img = [] then (fst acc, pair_id_map)
                  else (case read_text_file_batch env (snd pair) of
                          None \<Rightarrow> (fst acc, pair_id_map)
                        | Some text_content \<Rightarrow>
                            (fst acc @ [\<lparr>custom_id = cid,
                                         request_text = format_prompt env text_content,
                                         request_image = encoded_img\<rparr>],
                             pair_id_map))))"

definition prepare_batch_file_image_text ::
  "batch_env \<Rightarrow> (string \<times> string) list \<Rightarrow> batch_request list option \<times> id_map" where
  "prepare_batch_file_image_text env image_text_pairs =
     (let acc = foldl (prepare_image_text_step env) ([], []) image_text_pairs
      in if fst acc = [] then (None, []) else (Some (fst acc), snd acc))"

subsection \<open>The remote batch service\<close>

text \<open>
  The provider is a parameter. An upload answers a file ID or fails; creating a job on
  a file answers a job ID or fails, and may answer differently at each attempt;
  retrieving a job answers its state or fails; the content of an output file is its
  lines, already decoded.
\<close>

record batch_state =
  status :: string
  output_file_id :: "string option"
  error_file_id :: "string option"

text \<open>
  A line of the output file. \<open>Unreadable\<close> is a line whose processing raises (it is not
  JSON, or a field has the wrong shape): it is logged and skipped.
\<close>

record result_line =
  line_custom_id :: "string option"
  line_status_code :: "int option"
  line_choices :: "string list"
  line_error_message :: "string option"

datatype output_line = Unreadable | Decoded result_line

record remote =
  upload_batch_file :: "batch_request list \<Rightarrow> string option"
  create_batch_job :: "string \<Rightarrow> nat \<Rightarrow> string option"
  retrieve :: "string \<Rightarrow> nat \<Rightarrow> batch_state option"
  file_content :: "string \<Rightarrow> output_line list option"

text \<open>
  \<^verbatim>\<open>poll_batch_status\<close>: up to \<open>max_polls\<close> retrievals, returning at the first terminal
  state; a retrieval that raises is retried; after the last one the state is retrieved
  once more, and \<open>None\<close> is returned if that raises.
\<close>

fun poll_loop :: "(nat \<Rightarrow> batch_state option) \<Rightarrow> nat list \<Rightarrow> batch_state option" where
  "poll_loop retrieve_job [] = None"
| "poll_loop retrieve_job (i # rest) =
     (case retrieve_job i of
        None \<Rightarrow> poll_loop retrieve_job rest
      | Some batch \<Rightarrow>
          if status batch = ''completed'' then Some batch
          else if List.member [''failed'', ''cancelled'', ''expired''] (status batch) then Some batch
          else poll_loop retrieve_job rest)"

definition poll_batch_status :: "(nat \<Rightarrow> batch_state option) \<Rightarrow> batch_state option" where
  "poll_batch_status retrieve_job =
     (case poll_loop retrieve_job [0..<max_polls] of
        Some batch \<Rightarrow> Some batch
      | None \<Rightarrow> retrieve_job max_polls)"

subsection \<open>Reconciling the results of a job\<close>

definition process_result_line :: "id_map \<Rightarrow> results \<Rightarrow> output_line \<Rightarrow> results" where
  "process_result_line idm res line =
     (case line of
        Unreadable \<Rightarrow> res
      | Decoded result_obj \<Rightarrow>
          (case line_custom_id result_obj of
             None \<Rightarrow> res
           | Some cid \<Rightarrow>
               (case map_of idm cid of
                  None \<Rightarrow> res
                | Some item_info \<Rightarrow>
                    let item_id = py_str (info_id item_info)
                    in if line_status_code result_obj = Some 200
                       then (if line_choices result_obj \<noteq> []
                             then dict_set res item_id (hd (line_choices result_obj))
                             else dict_set res item_id ''Error: No choices in response.'')
                       else
                         let error_message = (case line_error_message result_obj of
                                                None \<Rightarrow> ''Unknown error'' | Some m \<Rightarrow> m);
                             status_code = (case line_status_code result_obj of
                                              None \<Rightarrow> ''N/A'' | Some c \<Rightarrow> py_str c)
                         in dict_set res item_id
                              (''Error: Status '' @ status_code @ '', Message: '' @ error_message))))"

definition process_batch_results :: "remote \<Rightarrow> string option \<Rightarrow> id_map \<Rightarrow> results" where
  "process_batch_results rem out_file_id idm =
     (case out_file_id of
        None \<Rightarrow> []
      | Some fid \<Rightarrow>
          if fid = [] then []
          else (case file_content rem fid of
                  None \<Rightarrow> []
                | Some lines \<Rightarrow> foldl (process_result_line idm) [] lines))"

subsection \<open>One chunk, with its retries\<close>

text \<open>
  The state of a (language, task) run: the result mapping, the mappings saved to the
  checkpoint file, the files uploaded with their requests, and the file ID of every job
  submission, oldest first.
\<close>

record batch_run =
  task_results :: results
  saves :: "results list"
  uploads :: "(string \<times> batch_request list) list"
  submissions :: "string list"
  batch_succeeded :: bool

text \<open>
  The loop \<^verbatim>\<open>while retries <= max_retries and not batch_succeeded\<close>. Every turn submits
  a job on \<open>file_id\<close>. A job that cannot be created, a poll that gives no state, a job
  completed without an output file, a job failed, cancelled or expired, and a job in any
  other state each add one to \<open>retries\<close> and differ only in what is logged and how long
  the loop sleeps, which the model leaves out. A job completed with an output file has
  its results merged into the mapping, which is saved, and ends the loop.
\<close>

function retry_chunk :: "remote \<Rightarrow> string \<Rightarrow> id_map \<Rightarrow> nat \<Rightarrow> batch_run \<Rightarrow> batch_run" where
  "retry_chunk rem file_id current_id_map retries st =
     (if retries \<le> max_retries then
        let st1 = st\<lparr>submissions := submissions st @ [file_id]\<rparr>
        in (case create_batch_job rem file_id retries of
              None \<Rightarrow> retry_chunk rem file_id current_id_map (retries + 1) st1
            | Some batch_id \<Rightarrow>
                (case poll_batch_status (retrieve rem batch_id) of
                   None \<Rightarrow> retry_chunk rem file_id current_id_map (retries + 1) st1
                 | Some completed_batch \<Rightarrow>
                     if status completed_batch = ''completed''
                     then (case output_file_id completed_batch of
                             None \<Rightarrow> retry_chunk rem file_id current_id_map (retries + 1) st1
                           | Some out_id \<Rightarrow>
                               if out_id = []
                               then retry_chunk rem file_id current_id_map (retries + 1) st1
                               else
                                 let batch_run_results =
                                       process_batch_results rem (Some out_id) current_id_map;
                                     merged = dict_update (task_results st1) batch_run_results
                                 in st1\<lparr>task_results := merged, saves := saves st1 @ [merged],
                                        batch_succeeded := True\<rparr>)
                     else retry_chunk rem file_id current_id_map (retries + 1) st1))
      else st)"
  by pat_completeness auto
termination
  by (relation "measure (\<lambda>(rem, file_id, current_id_map, retries, st). Suc max_retries - retries)") auto

declare retry_chunk.simps [simp del]

text \<open>
  One turn of the loop over the chunks: prepare, upload once, then submit with retries.
  A chunk that cannot be prepared or uploaded is skipped.
\<close>

definition process_chunk :: "remote \<Rightarrow> batch_run \<Rightarrow> batch_request list option \<times> id_map \<Rightarrow> batch_run" where
  "process_chunk rem st prepared =
     (case fst prepared of
        None \<Rightarrow> st
      | Some batch_lines \<Rightarrow>
          if snd prepared = [] then st
          else (case upload_batch_file rem batch_lines of
                  None \<Rightarrow> st
                | Some file_id \<Rightarrow>
                    if file_id = [] then st
                    else retry_chunk rem file_id (snd prepared) 0
                           (st\<lparr>uploads := uploads st @ [(file_id, batch_lines)],
                               batch_succeeded := False\<rparr>)))"

subsection \<open>One (language, task) run\<close>

text \<open>\<^verbatim>\<open>items[i:i + batch_size] for i in range(0, len(items), batch_size)\<close>.\<close>

definition chunks :: "nat \<Rightarrow> 'a list \<Rightarrow> 'a list list" where
  "chunks n items = map (\<lambda>k. take n (drop (k * n) items)) [0..<(length items + n - 1) div n]"

record batch_result =
  batch_returned :: "error + results"
  batch_saves :: "results list"
  batch_uploads :: "(string \<times> batch_request list) list"
  batch_submissions :: "string list"

definition process_task_for_language_batch ::
  "batch_env \<Rightarrow> remote \<Rightarrow> nat \<Rightarrow> string list \<Rightarrow> (string \<times> string) list \<Rightarrow> results option \<Rightarrow>
   batch_result" where
  "process_task_for_language_batch env rem task_num all_images image_text_pairs checkpoint_file =
     (let is_image_text_task = (task_num \<ge> 6);
          checkpoint_data = load_checkpoint checkpoint_file;
          loaded = dict_of checkpoint_data;
          remaining_pairs = get_remaining_image_text_pairs image_text_pairs (dict_keys loaded);
          remaining_images = get_remaining_images all_images (dict_keys loaded);
          nothing_left = (if is_image_text_task then remaining_pairs = [] else remaining_images = []);
          prepared =
            (if is_image_text_task
             then map (prepare_batch_file_image_text env) (chunks batch_size remaining_pairs)
             else map (prepare_batch_file_image_only env) (chunks batch_size remaining_images));
          st0 = \<lparr>task_results = loaded, saves = [], uploads = [], submissions = [],
                 batch_succeeded = False\<rparr>
      in if nothing_left
         then \<lparr>batch_returned = Inr loaded, batch_saves = [], batch_uploads = [],
               batch_submissions = []\<rparr>
         else
           let st = foldl (process_chunk rem) st0 prepared
           in \<lparr>batch_returned = sorted_results (task_results st), batch_saves = saves st,
               batch_uploads = uploads st, batch_submissions = submissions st\<rparr>)"

section \<open>Saving a checkpoint\<close>

text \<open>
  \<^verbatim>\<open>json.dump(results, f, ensure_ascii=False, indent=4)\<close> writes the encoding piece by
  piece. A string is written between double quotes, with the quote, the backslash and
  the control characters escaped and everything else as it is.
\<close>

definition hex_chr :: "nat \<Rightarrow> char" where
  "hex_chr d = ''0123456789abcdef'' ! d"

definition escape_chr :: "char \<Rightarrow> string" where
  "escape_chr c =
     (case map_of
        [(CHR 0x22, [CHR 0x5C, CHR 0x22]), (CHR 0x5C, [CHR 0x5C, CHR 0x5C]),
         (CHR 0x0A, [CHR 0x5C, CHR ''n'']), (CHR 0x0D, [CHR 0x5C, CHR ''r'']),
         (CHR 0x09, [CHR 0x5C, CHR ''t'']), (CHR 0x08, [CHR 0x5C, CHR ''b'']),
         (CHR 0x0C, [CHR 0x5C, CHR ''f''])] c of
        Some e \<Rightarrow> e
      | None \<Rightarrow>
          if (of_char c :: nat) < 32
          then [CHR 0x5C, CHR ''u'', CHR ''0'', CHR ''0'',
                hex_chr ((of_char c :: nat) div 16), hex_chr ((of_char c :: nat) mod 16)]
          else [c])"

definition encode_basestring :: "string \<Rightarrow> string" where
  "encode_basestring s = [CHR 0x22] @ concat (map escape_chr s) @ [CHR 0x22]"

fun item_pieces :: "bool \<Rightarrow> results \<Rightarrow> string list" where
  "item_pieces first [] = []"
| "item_pieces first ((k, v) # rest) =
     (if first then [] else [CHR '','' # CHR 0x0A # ''    '']) @
     [encode_basestring k, '': '', encode_basestring v] @ item_pieces False rest"

definition json_pieces :: "results \<Rightarrow> string list" where
  "json_pieces res =
     (if res = [] then [''{}'']
      else [''{'', CHR 0x0A # ''    ''] @ item_pieces True res @ [[CHR 0x0A], ''}''])"

text \<open>
  \<^verbatim>\<open>save_checkpoint\<close> is the same in both scripts: the checkpoint file is opened with mode
  \<^verbatim>\<open>'w'\<close>, which truncates it, and the pieces are written into it, one after the other.
  There is no temporary file and no rename. A file is its content; a save is the list
  of its writes, and a crash after \<open>n\<close> of them leaves what these \<open>n\<close> have done.
\<close>

datatype file_op = Truncate | Write string

fun apply_file_op :: "string \<Rightarrow> file_op \<Rightarrow> string" where
  "apply_file_op content Truncate = []"
| "apply_file_op content (Write piece) = content @ piece"

definition save_checkpoint_ops :: "results \<Rightarrow> file_op list" where
  "save_checkpoint_ops res = Truncate # map Write (json_pieces res)"

definition save_checkpoint :: "results \<Rightarrow> string \<Rightarrow> string" where
  "save_checkpoint res content = foldl apply_file_op content (save_checkpoint_ops res)"

definition save_checkpoint_crash :: "nat \<Rightarrow> results \<Rightarrow> string \<Rightarrow> string" where
  "save_checkpoint_crash n res content = foldl apply_file_op content (take n (save_checkpoint_ops res))"

section \<open>Notions the properties are stated with\<close>

text \<open>
  The output file of the job submitted on \<open>file_id\<close> at a given retry count, when that
  job completes with one: the only case in which the retry loop merges results.
\<close>

definition job_output :: "remote \<Rightarrow> string \<Rightarrow> nat \<Rightarrow> string option" where
  "job_output rem file_id retries =
     (case create_batch_job rem file_id retries of
        None \<Rightarrow> None
      | Some batch_id \<Rightarrow>
          (case poll_batch_status (retrieve rem batch_id) of
             None \<Rightarrow> None
           | Some completed_batch \<Rightarrow>
               if status completed_batch = ''completed''
               then (case output_file_id completed_batch of
                       None \<Rightarrow> None
                     | Some out_id \<Rightarrow> if out_id = [] then None else Some out_id)
               else None))"

text \<open>
  The job submitted at a given retry count ends as failed, cancelled or expired, or
  completes without an output file.
\<close>

definition job_failed :: "remote \<Rightarrow> string \<Rightarrow> nat \<Rightarrow> bool" where
  "job_failed rem file_id retries =
     (case create_batch_job rem file_id retries of
        None \<Rightarrow> False
      | Some batch_id \<Rightarrow>
          (case poll_batch_status (retrieve rem batch_id) of
             None \<Rightarrow> False
           | Some completed_batch \<Rightarrow>
               List.member [''failed'', ''cancelled'', ''expired''] (status completed_batch) \<or>
               (status completed_batch = ''completed'' \<and>
                (output_file_id completed_batch = None \<or> output_file_id completed_batch = Some []))))"

text \<open>
  The value of a decimal digit character, and the integer that a sequence of such
  characters writes, most significant digit first.
\<close>

definition decimal_of :: "string \<Rightarrow> nat" where
  "decimal_of u =
     (case code_point u of
        None \<Rightarrow> 0
      | Some cp \<Rightarrow> (case decimal_value cp of None \<Rightarrow> 0 | Some d \<Rightarrow> nat d))"

definition digits_value :: "string list \<Rightarrow> nat" where
  "digits_value us = foldl (\<lambda>n u. 10 * n + decimal_of u) 0 us"

text \<open>A key is the decimal string of a non-negative integer.\<close>

definition is_decimal_key :: "string \<Rightarrow> bool" where
  "is_decimal_key k = (case py_int k of None \<Rightarrow> False | Some i \<Rightarrow> 0 \<le> i \<and> py_str i = k)"



section \<open>Concrete scenarios\<close>

text \<open>A model that is unavailable at every attempt, and one that blocks the second attempt.\<close>

definition always_raises :: "nat \<Rightarrow> api_outcome" where
  "always_raises attempt = Raises ''503 unavailable''"

definition blocked_second :: "nat \<Rightarrow> api_outcome" where
  "blocked_second attempt =
     (if attempt = 0 then Raises ''503 unavailable''
      else Responds [\<lparr>parts = [], finish_reason = ''SAFETY'', safety_ratings = ''[HARM]''\<rparr>])"

text \<open>
  A direct-mode run on three images: the second image cannot be encoded, the text file
  \<open>text10.txt\<close> cannot be read, the model answers every request at the first attempt,
  and the requests complete last first.
\<close>

definition demo_env :: direct_env where
  "demo_env =
     \<lparr>encode_image_to_base64 =
        (\<lambda>p. if p = ''data/image3.jpg'' then None else Some (''QUJD'', ''image/jpeg'')),
      read_text_file = (\<lambda>p. if p = ''data/text10.txt'' then None else Some ''a caption''),
      prompt_image_only = (\<lambda>task_num. ''describe''),
      prompt_image_text = (\<lambda>task_num text_content. ''describe '' @ text_content),
      generate_content =
        (\<lambda>prompt attempt.
           Responds [\<lparr>parts = ['' a cat ''], finish_reason = ''STOP'', safety_ratings = ''[]''\<rparr>])\<rparr>"

definition demo_items :: "item_data list" where
  "demo_items =
     [\<lparr>image_path = ''data/image2.jpg'', text_path = None\<rparr>,
      \<lparr>image_path = ''data/image3.jpg'', text_path = None\<rparr>,
      \<lparr>image_path = ''data/image10.jpg'', text_path = None\<rparr>]"

definition last_first :: "item_data list \<Rightarrow> item_data list" where
  "last_first remaining = rev remaining"

text \<open>
  A batch run on the same images. One remote completes every job and lists the results
  of the third image before those of the first; the other fails every job.
\<close>

definition demo_batch_env :: batch_env where
  "demo_batch_env =
     \<lparr>encode_image = (\<lambda>p. if p = ''data/image3.jpg'' then None else Some ''QUJD''),
      read_text_file_batch = (\<lambda>p. if p = ''data/text10.txt'' then None else Some ''a caption''),
      time_ms = (\<lambda>p. 1000),
      task_prompt = ''describe'',
      format_prompt = (\<lambda>text_content. ''describe '' @ text_content)\<rparr>"

definition demo_images :: "string list" where
  "demo_images = [''data/image2.jpg'', ''data/image3.jpg'', ''data/image10.jpg'']"

definition demo_remote :: remote where
  "demo_remote =
     \<lparr>upload_batch_file = (\<lambda>batch_lines. Some ''file-1''),
      create_batch_job = (\<lambda>file_id retries. Some ''batch-1''),
      retrieve = (\<lambda>batch_id poll.
         Some \<lparr>status = ''completed'', output_file_id = Some ''out-1'', error_file_id = None\<rparr>),
      file_content = (\<lambda>file_id.
         Some [Decoded \<lparr>line_custom_id = Some ''img_10_1000'', line_status_code = Some 200,
                        line_choices = [''a dog''], line_error_message = None\<rparr>,
               Decoded \<lparr>line_custom_id = Some ''img_2_1000'', line_status_code = Some 200,
                        line_choices = [''a cat''], line_error_message = None\<rparr>])\<rparr>"

definition failing_remote :: remote where
  "failing_remote =
     \<lparr>upload_batch_file = (\<lambda>batch_lines. Some ''file-1''),
      create_batch_job = (\<lambda>file_id retries. Some ''batch-1''),
      retrieve = (\<lambda>batch_id poll.
         Some \<lparr>status = ''failed'', output_file_id = None, error_file_id = Some ''err-1''\<rparr>),
      file_content = (\<lambda>file_id. None)\<rparr>"

text \<open>
  Two file names with digits outside ASCII. The first is \<open>image\<close>, the superscript two
  (U+00B2, encoded as the bytes \<open>C2 B2\<close>) and \<open>5.jpg\<close>; the second is \<open>image\<close>, the
  Arabic-Indic digit three (U+0663, bytes \<open>D9 A3\<close>) and \<open>.jpg\<close>.
\<close>

definition superscript_two_five :: string where
  "superscript_two_five = ''data/image'' @ [CHR 0xC2, CHR 0xB2] @ ''5.jpg''"

definition arabic_three :: string where
  "arabic_three = ''data/image'' @ [CHR 0xD9, CHR 0xA3] @ ''.jpg''"

text \<open>
  A directory with two images of the same ID, a checkpoint with nine entries, and a
  model that answers every request by naming the image it was sent. \<open>in_order\<close>
  completes the requests in the order of dispatch.
\<close>

definition twin_fs :: filesystem where
  "twin_fs = fs_of ''data'' [''img02.png'', ''image2.jpg'']"

definition nine_done :: results where
  "nine_done =
     [(''11'', ''done''), (''12'', ''done''), (''13'', ''done''), (''14'', ''done''),
      (''15'', ''done''), (''16'', ''done''), (''17'', ''done''), (''18'', ''done''),
      (''19'', ''done'')]"

definition echo_env :: direct_env where
  "echo_env =
     \<lparr>encode_image_to_base64 = (\<lambda>p. Some (p, ''image/jpeg'')),
      read_text_file = (\<lambda>p. Some ''text''),
      prompt_image_only = (\<lambda>t. ''describe''),
      prompt_image_text = (\<lambda>t c. ''describe '' @ c),
      generate_content =
        (\<lambda>prompt attempt.
           Responds [\<lparr>parts = [''seen '' @ snd (snd prompt)], finish_reason = ''STOP'',
                      safety_ratings = ''[]''\<rparr>])\<rparr>"

definition in_order :: "item_data list \<Rightarrow> item_data list" where
  "in_order items = items"

section \<open>Properties of strings, integers and paths\<close>

lemma ascii_digit_byte: "ascii_digit c \<Longrightarrow> byte c < 128"
  by (auto simp: ascii_digit_def byte_def)

lemma ascii_digit_not_c_space: "ascii_digit c \<Longrightarrow> \<not> c_space c"
  by (auto simp: ascii_digit_def c_space_def)

lemma dropWhile_id: "xs \<noteq> [] \<Longrightarrow> \<not> P (hd xs) \<Longrightarrow> dropWhile P xs = xs"
  by (cases xs) auto

lemma c_strip_id:
  "s \<noteq> [] \<Longrightarrow> \<not> c_space (hd s) \<Longrightarrow> \<not> c_space (last s) \<Longrightarrow>
   rev (dropWhile c_space (rev (dropWhile c_space s))) = s"
  by (simp add: dropWhile_id hd_rev)

lemma int_body_ok_digits: "ds \<noteq> [] \<Longrightarrow> list_all ascii_digit ds \<Longrightarrow> int_body_ok ds"
  by (induction ds rule: int_body_ok.induct) (auto simp: ascii_digit_def)

lemma int_body_ok_chars: "int_body_ok b \<Longrightarrow> \<forall>c \<in> set b. ascii_digit c \<or> c = CHR ''_''"
  by (induction b rule: int_body_ok.induct) (auto split: if_splits)

lemma parse_int_digits:
  assumes "ds \<noteq> []" "list_all ascii_digit ds"
  shows "parse_int ds = Some (int (dec_value ds))"
proof -
  have h: "ascii_digit (hd ds)" and l: "ascii_digit (last ds)"
    using assms by (auto simp: list_all_iff)
  have s: "rev (dropWhile c_space (rev (dropWhile c_space ds))) = ds"
    using assms h l by (intro c_strip_id) (auto dest: ascii_digit_not_c_space)
  have sg: "hd ds \<noteq> CHR ''-''" "hd ds \<noteq> CHR ''+''"
    using h by (auto simp: ascii_digit_def)
  have f: "filter ascii_digit ds = ds"
    using assms by (simp add: list_all_iff)
  show ?thesis
    using assms sg by (simp add: parse_int_def s f int_body_ok_digits)
qed

lemma int_ascii_ascii: "list_all (\<lambda>c. byte c < 128) s \<Longrightarrow> int_ascii s = s"
  by (simp add: int_ascii_def)

lemma py_int_digits:
  assumes "ds \<noteq> []" "list_all ascii_digit ds"
  shows "py_int ds = Some (int (dec_value ds))"
proof -
  have "list_all (\<lambda>c. byte c < 128) ds"
    using assms(2) by (auto simp: list_all_iff dest: ascii_digit_byte)
  then show ?thesis using assms by (simp add: py_int_def int_ascii_ascii parse_int_digits)
qed

subsection \<open>Characters\<close>

lemma takeWhile_take_prefix:
  "takeWhile P (take n cs) @ drop (length (takeWhile P (take n cs))) cs = cs"
proof -
  have "takeWhile P (take n cs) = take (length (takeWhile P (take n cs))) (take n cs)"
    by (rule takeWhile_eq_take)
  also have "\<dots> = take (length (takeWhile P (take n cs))) cs"
  proof -
    have "length (takeWhile P (take n cs)) \<le> n"
      using length_takeWhile_le [of P "take n cs"] by simp
    then show ?thesis by (simp add: min_def)
  qed
  finally have "takeWhile P (take n cs) = take (length (takeWhile P (take n cs))) cs" .
  then show ?thesis by (metis append_take_drop_id)
qed

lemma concat_utf8_chars: "concat (utf8_chars s) = s"
  by (induction s rule: utf8_chars.induct) (simp_all add: takeWhile_take_prefix)

lemma utf8_chars_nonempty: "u \<in> set (utf8_chars s) \<Longrightarrow> u \<noteq> []"
  by (induction s rule: utf8_chars.induct) auto

lemma code_point_wf:
  "code_point u = Some cp \<Longrightarrow>
   \<exists>c cs. u = c # cs \<and> length cs = seq_len c \<and> list_all is_cont cs"
  by (auto simp: code_point_def split: list.splits if_splits)

lemma utf8_chars_unit:
  assumes "length cs = seq_len c" "list_all is_cont cs"
  shows "utf8_chars ((c # cs) @ rest) = (c # cs) # utf8_chars rest"
proof -
  have t: "take (seq_len c) (cs @ rest) = cs" using assms(1) by simp
  have w: "takeWhile is_cont cs = cs" using assms(2) by (simp add: list_all_iff takeWhile_eq_all_conv)
  show ?thesis unfolding append_Cons utf8_chars.simps t w by simp
qed

lemma utf8_chars_concat:
  "\<forall>u \<in> set us. code_point u \<noteq> None \<Longrightarrow> utf8_chars (concat us) = us"
proof (induction us)
  case Nil
  then show ?case by simp
next
  case (Cons u us)
  then obtain cp where "code_point u = Some cp" by auto
  then obtain c cs where u: "u = c # cs" "length cs = seq_len c" "list_all is_cont cs"
    using code_point_wf by blast
  have "utf8_chars (concat (u # us)) = utf8_chars ((c # cs) @ concat us)" using u by simp
  also have "\<dots> = (c # cs) # utf8_chars (concat us)" using u(2,3) by (rule utf8_chars_unit)
  finally show ?case using Cons u by simp
qed

lemma utf8_chars_ascii:
  "list_all (\<lambda>c. byte c < 128) s \<Longrightarrow> utf8_chars s = map (\<lambda>c. [c]) s"
  by (induction s) (auto simp: seq_len_def)

lemma code_point_ascii:
  assumes "code_point u = Some cp" "cp < 128"
  shows "\<exists>c. u = [c] \<and> byte c = cp"
proof -
  obtain c cs where u: "u = c # cs" "length cs = seq_len c" "list_all is_cont cs"
    using assms(1) code_point_wf by blast
  have "cs = []"
  proof (rule ccontr)
    assume ne: "cs \<noteq> []"
    then have lead: "194 \<le> byte c" using u(2) by (auto simp: seq_len_def split: if_splits)
    have cont: "\<forall>b \<in> set cs. 128 \<le> byte b" using u(3) by (auto simp: list_all_iff is_cont_def)
    show False
      using assms u lead cont ne
      by (auto simp: code_point_def Let_def split: list.splits if_splits)
  qed
  then show ?thesis using assms u by (auto simp: code_point_def split: if_splits)
qed

lemma code_point_single: "byte c < 128 \<Longrightarrow> code_point [c] = Some (byte c)"
  by (simp add: code_point_def seq_len_def)

lemma code_point_lead:
  assumes "code_point u = Some cp" "128 \<le> cp"
  shows "u \<noteq> [] \<and> 128 \<le> byte (hd u)"
proof -
  obtain c cs where u: "u = c # cs" "length cs = seq_len c" "list_all is_cont cs"
    using assms(1) code_point_wf by blast
  have "\<not> byte c < 128"
  proof
    assume "byte c < 128"
    then have "cs = []" using u(2) by (simp add: seq_len_def)
    then show False using assms u \<open>byte c < 128\<close> by (simp add: code_point_single)
  qed
  then show ?thesis using u by simp
qed

subsection \<open>Character classes\<close>

lemma tables_disjoint:
  "list_all (\<lambda>z. 128 \<le> z \<and> list_all (\<lambda>r. snd r < z \<or> z + 9 < fst r) space_ranges) decimal_zeros"
  "list_all (\<lambda>d. 128 \<le> fst d \<and> list_all (\<lambda>r. snd r < fst d \<or> snd d < fst r) space_ranges)
     other_digit_ranges"
  by code_simp+

lemma find_SomeD: "find P xs = Some x \<Longrightarrow> x \<in> set xs \<and> P x"
  by (induction xs) (auto split: if_splits)

lemma decimal_value_range: "decimal_value cp = Some d \<Longrightarrow> 0 \<le> d \<and> d < 10"
  by (auto simp: decimal_value_def split: if_splits option.splits dest: find_SomeD)

lemma decimal_not_space: "decimal_value cp = Some d \<Longrightarrow> \<not> space_cp cp"
proof (cases "cp < 128")
  case True
  assume "decimal_value cp = Some d"
  then show ?thesis using True by (auto simp: decimal_value_def space_cp_def split: if_splits)
next
  case False
  assume "decimal_value cp = Some d"
  then obtain z where z: "z \<in> set decimal_zeros" "z \<le> cp" "cp < z + 10"
    using False by (auto simp: decimal_value_def split: option.splits dest: find_SomeD)
  then have "\<forall>r \<in> set space_ranges. snd r < z \<or> z + 9 < fst r"
    using tables_disjoint(1) by (auto simp: list_all_iff)
  then have "\<not> in_ranges space_ranges cp"
    using z by (fastforce simp: in_ranges_def list_ex_iff)
  then show ?thesis using False by (simp add: space_cp_def)
qed

lemma other_digit_not_space:
  assumes "in_ranges other_digit_ranges cp"
  shows "128 \<le> cp \<and> \<not> space_cp cp"
proof -
  obtain d where d: "d \<in> set other_digit_ranges" "fst d \<le> cp" "cp \<le> snd d"
    using assms by (auto simp: in_ranges_def list_ex_iff)
  then have p: "128 \<le> fst d" "\<forall>r \<in> set space_ranges. snd r < fst d \<or> snd d < fst r"
    using tables_disjoint(2) by (auto simp: list_all_iff)
  then have "\<not> in_ranges space_ranges cp"
    using d by (fastforce simp: in_ranges_def list_ex_iff)
  then show ?thesis using p d by (simp add: space_cp_def)
qed

lemma isdigit_not_space: "isdigit u \<Longrightarrow> \<not> isspace u"
  by (auto simp: isdigit_def isspace_def split: option.splits
      dest: decimal_not_space other_digit_not_space)

subsection \<open>Reading digits\<close>

lemma digit_cases: "d < 10 \<Longrightarrow> d \<in> {0,1,2,3,4,5,6,7,8,9::nat}"
  by auto

lemma digit_val_chr: "d < 10 \<Longrightarrow> digit_val (digit_chr d) = d"
  by (drule digit_cases) (auto simp: digit_val_def digit_chr_def)

lemma ascii_digit_chr: "d < 10 \<Longrightarrow> ascii_digit (digit_chr d)"
  by (drule digit_cases) (auto simp: ascii_digit_def digit_chr_def)

lemma byte_of_digit_chr: "d < 10 \<Longrightarrow> byte (digit_chr d) = 48 + int d"
  by (drule digit_cases) (auto simp: digit_chr_def byte_def)

lemma byte_digit_chr:
  assumes "48 \<le> byte c" "byte c \<le> 57"
  shows "c = digit_chr (nat (byte c - 48))"
proof -
  have "nat (byte c - 48) < 10" using assms by simp
  then have "byte (digit_chr (nat (byte c - 48))) = 48 + int (nat (byte c - 48))"
    by (rule byte_of_digit_chr)
  then have "byte (digit_chr (nat (byte c - 48))) = byte c" using assms by simp
  then show ?thesis by (simp add: byte_def)
qed

lemma decimal_of_less: "decimal_of u < 10"
  by (auto simp: decimal_of_def split: option.splits dest: decimal_value_range)

lemma to_ascii_decimal:
  assumes "isdecimal u"
  shows "to_ascii u = digit_chr (decimal_of u)"
proof -
  obtain cp d where cp: "code_point u = Some cp" and d: "decimal_value cp = Some d"
    using assms by (auto simp: isdecimal_def split: option.splits)
  have ns: "\<not> space_cp cp" using d by (rule decimal_not_space)
  show ?thesis
  proof (cases "cp < 127")
    case True
    then obtain c where c: "u = [c]" "byte c = cp" using cp code_point_ascii [of u cp] by auto
    have r: "48 \<le> cp" "cp \<le> 57" "d = cp - 48"
      using d True by (auto simp: decimal_value_def split: if_splits)
    have "c = digit_chr (nat (byte c - 48))" using r c by (intro byte_digit_chr) simp_all
    then show ?thesis using True cp d c r by (simp add: to_ascii_def decimal_of_def)
  next
    case False
    then show ?thesis using cp d ns by (simp add: to_ascii_def decimal_of_def)
  qed
qed

lemma to_ascii_other:
  assumes "isdigit u" "\<not> isdecimal u"
  shows "to_ascii u = CHR ''?''"
proof -
  obtain cp where cp: "code_point u = Some cp" and d: "decimal_value cp = None"
    and o: "in_ranges other_digit_ranges cp"
    using assms by (auto simp: isdigit_def isdecimal_def split: option.splits)
  have "128 \<le> cp" "\<not> space_cp cp" using o other_digit_not_space by auto
  then show ?thesis using cp d by (simp add: to_ascii_def)
qed

lemma isdigit_ascii_unit:
  assumes "isdigit u" "list_all (\<lambda>c. byte c < 128) u"
  shows "isdecimal u \<and> u = [to_ascii u]"
proof -
  obtain cp where cp: "code_point u = Some cp"
    using assms(1) by (auto simp: isdigit_def split: option.splits)
  have lt: "cp < 128"
  proof (rule ccontr)
    assume "\<not> cp < 128"
    then have "u \<noteq> [] \<and> 128 \<le> byte (hd u)" using cp code_point_lead [of u cp] by simp
    then show False using assms(2) by (cases u) auto
  qed
  then obtain c where c: "u = [c]" "byte c = cp" using cp code_point_ascii [of u cp] by auto
  have dec: "isdecimal u"
    using assms(1) cp lt other_digit_not_space [of cp]
    by (auto simp: isdigit_def isdecimal_def)
  then obtain d where d: "decimal_value cp = Some d"
    using cp by (auto simp: isdecimal_def)
  then have "cp < 127" using lt by (auto simp: decimal_value_def split: if_splits)
  then have "to_ascii u = c" using cp c by (simp add: to_ascii_def)
  then show ?thesis using dec c by simp
qed

lemma concat_singletons: "\<forall>u \<in> set us. u = [f u] \<Longrightarrow> concat us = map f us"
proof (induction us)
  case Nil
  then show ?case by simp
next
  case (Cons a us)
  then have "a = [f a]" by simp
  then have "concat (a # us) = [f a] @ concat us" by (metis concat.simps(2))
  then show ?case using Cons by simp
qed

lemma isdigit_code_point: "isdigit u \<Longrightarrow> code_point u \<noteq> None"
  by (auto simp: isdigit_def split: option.splits)

lemma isdecimal_isdigit: "isdecimal u \<Longrightarrow> isdigit u"
  by (auto simp: isdigit_def isdecimal_def split: option.splits)

lemma int_ascii_digits:
  assumes "\<forall>u \<in> set us. isdigit u"
  shows "int_ascii (concat us) = map to_ascii us"
proof (cases "list_all (\<lambda>c. byte c < 128) (concat us)")
  case True
  have "\<forall>u \<in> set us. u = [to_ascii u]"
  proof
    fix u assume u: "u \<in> set us"
    then have "list_all (\<lambda>c. byte c < 128) u" using True by (auto simp: list_all_iff)
    then show "u = [to_ascii u]" using assms u isdigit_ascii_unit by blast
  qed
  then have "concat us = map to_ascii us"
    by (rule concat_singletons)
  then show ?thesis using True by (simp add: int_ascii_def)
next
  case False
  have "utf8_chars (concat us) = us"
    using assms by (intro utf8_chars_concat) (auto dest: isdigit_code_point)
  then show ?thesis using False by (simp add: int_ascii_def)
qed

lemma dec_value_digits: "dec_value (map (\<lambda>u. digit_chr (decimal_of u)) us) = digits_value us"
  by (simp add: dec_value_def digits_value_def foldl_map digit_val_chr decimal_of_less)

lemma py_int_decimal_units:
  assumes "us \<noteq> []" "\<forall>u \<in> set us. isdecimal u"
  shows "py_int (concat us) = Some (int (digits_value us))"
proof -
  have "int_ascii (concat us) = map to_ascii us"
    using assms(2) by (intro int_ascii_digits) (auto dest: isdecimal_isdigit)
  also have "\<dots> = map (\<lambda>u. digit_chr (decimal_of u)) us"
    using assms(2) by (simp add: to_ascii_decimal)
  finally have a: "int_ascii (concat us) = map (\<lambda>u. digit_chr (decimal_of u)) us" .
  have "parse_int (map (\<lambda>u. digit_chr (decimal_of u)) us)
        = Some (int (dec_value (map (\<lambda>u. digit_chr (decimal_of u)) us)))"
    using assms(1) by (intro parse_int_digits) (simp_all add: list_all_iff ascii_digit_chr decimal_of_less)
  then show ?thesis by (simp add: py_int_def a dec_value_digits)
qed

lemma py_int_other_units:
  assumes "\<forall>u \<in> set us. isdigit u" "u0 \<in> set us" "\<not> isdecimal u0"
  shows "py_int (concat us) = None"
proof -
  let ?a = "map to_ascii us"
  have a: "int_ascii (concat us) = ?a" using assms(1) by (rule int_ascii_digits)
  have ch: "\<forall>c \<in> set ?a. ascii_digit c \<or> c = CHR ''?''"
  proof
    fix c assume "c \<in> set ?a"
    then obtain u where u: "u \<in> set us" "c = to_ascii u" by auto
    show "ascii_digit c \<or> c = CHR ''?''"
    proof (cases "isdecimal u")
      case True
      then show ?thesis using u by (simp add: to_ascii_decimal ascii_digit_chr decimal_of_less)
    next
      case False
      then show ?thesis using u assms(1) by (simp add: to_ascii_other)
    qed
  qed
  have q: "CHR ''?'' \<in> set ?a"
    using assms to_ascii_other [of u0] by force
  have ne: "?a \<noteq> []" using assms(2) by auto
  have nsp: "\<forall>c \<in> set ?a. \<not> c_space c \<and> c \<noteq> CHR ''-'' \<and> c \<noteq> CHR ''+''"
    using ch by (auto simp: ascii_digit_def c_space_def)
  have s: "rev (dropWhile c_space (rev (dropWhile c_space ?a))) = ?a"
    using ne nsp by (intro c_strip_id) (simp_all only: hd_in_set last_in_set simp_thms)
  have "\<not> ascii_digit CHR ''?''" "CHR ''?'' \<noteq> CHR ''_''"
    by (simp_all add: ascii_digit_def)
  then have "\<not> int_body_ok ?a"
    using q int_body_ok_chars [of ?a] by blast
  moreover have "hd ?a \<noteq> CHR ''-''" "hd ?a \<noteq> CHR ''+''"
    using ne nsp hd_in_set [of ?a] by blast+
  ultimately have "parse_int ?a = None"
    unfolding parse_int_def s by (simp add: Let_def)
  then show ?thesis by (simp add: py_int_def a)
qed

lemma py_int_empty: "py_int [] = None"
  by (simp add: py_int_def int_ascii_def parse_int_def)

lemma py_int_digit_units:
  assumes "\<forall>u \<in> set us. isdigit u"
  shows "py_int (concat us) =
         (if us \<noteq> [] \<and> list_all isdecimal us then Some (int (digits_value us)) else None)"
proof (cases "us \<noteq> [] \<and> list_all isdecimal us")
  case True
  then show ?thesis by (simp add: py_int_decimal_units list_all_iff)
next
  case False
  show ?thesis
  proof (cases "us = []")
    case True
    then show ?thesis by (simp add: py_int_empty)
  next
    case ne: False
    then obtain u0 where "u0 \<in> set us" "\<not> isdecimal u0" using False by (auto simp: list_all_iff)
    then have "py_int (concat us) = None" using assms py_int_other_units by blast
    then show ?thesis using False by simp
  qed
qed

subsection \<open>The decimal form of an integer\<close>

lemma dec_value_snoc: "dec_value (ds @ [c]) = 10 * dec_value ds + digit_val c"
  by (simp add: dec_value_def)

lemma dec_value_str_nat: "dec_value (str_nat n) = n"
proof (induction n rule: str_nat.induct)
  case (1 n)
  show ?case
  proof (cases "n < 10")
    case True
    then show ?thesis by (subst str_nat.simps) (simp add: dec_value_def digit_val_chr)
  next
    case False
    then show ?thesis using 1 by (subst str_nat.simps) (simp add: dec_value_snoc digit_val_chr)
  qed
qed

lemma str_nat_digits: "list_all ascii_digit (str_nat n)"
proof (induction n rule: str_nat.induct)
  case (1 n)
  show ?case
    using 1 by (subst str_nat.simps) (simp add: ascii_digit_chr)
qed

lemma str_nat_nonempty: "str_nat n \<noteq> []"
  by (subst str_nat.simps) simp

lemma py_int_str_nat: "py_int (str_nat n) = Some (int n)"
  by (simp add: py_int_digits str_nat_nonempty str_nat_digits dec_value_str_nat)

lemma py_int_py_str: "py_int (py_str i) = Some i"
proof (cases "i < 0")
  case True
  let ?ds = "str_nat (nat (- i))"
  have f: "filter ascii_digit ?ds = ?ds"
    using str_nat_digits [of "nat (- i)"] by (simp add: list_all_iff)
  have "byte CHR ''-'' < 128" by (simp add: byte_def)
  then have asc: "list_all (\<lambda>c. byte c < 128) (CHR ''-'' # ?ds)"
    using str_nat_digits [of "nat (- i)"] by (auto simp: list_all_iff dest: ascii_digit_byte)
  have "ascii_digit (last ?ds)"
    using str_nat_digits [of "nat (- i)"] str_nat_nonempty [of "nat (- i)"] by (simp add: list_all_iff)
  then have "\<not> c_space (last (CHR ''-'' # ?ds))"
    using str_nat_nonempty [of "nat (- i)"] by (auto dest: ascii_digit_not_c_space)
  moreover have "\<not> c_space (hd (CHR ''-'' # ?ds))" by (simp add: c_space_def)
  ultimately have s: "rev (dropWhile c_space (rev (dropWhile c_space (CHR ''-'' # ?ds)))) = CHR ''-'' # ?ds"
    by (intro c_strip_id) auto
  have "parse_int (CHR ''-'' # ?ds) = Some i"
    unfolding parse_int_def s using True
    by (simp add: f int_body_ok_digits str_nat_nonempty str_nat_digits dec_value_str_nat)
  then show ?thesis
    using True asc by (simp add: py_str_def py_int_def int_ascii_ascii)
next
  case False
  then show ?thesis by (simp add: py_str_def py_int_str_nat)
qed


subsection \<open>Paths and the digits of a stem\<close>

lemma code_point_hd_not_cont:
  assumes "code_point u = Some cp"
  shows "u \<noteq> [] \<and> \<not> is_cont (hd u)"
proof -
  obtain c cs where u: "u = c # cs" "length cs = seq_len c" "list_all is_cont cs"
    using assms code_point_wf by blast
  have "\<not> is_cont c"
  proof
    assume a: "is_cont c"
    then have "cs = []" using u(2) by (simp add: seq_len_def is_cont_def)
    then show False using assms u a by (simp add: code_point_def is_cont_def seq_len_def)
  qed
  then show ?thesis using u by simp
qed

lemma code_point_bytes:
  assumes "code_point u = Some cp" "128 \<le> cp"
  shows "\<forall>c \<in> set u. 128 \<le> byte c"
proof -
  obtain c cs where u: "u = c # cs" "length cs = seq_len c" "list_all is_cont cs"
    using assms(1) code_point_wf by blast
  have "128 \<le> byte c" using code_point_lead [OF assms] u by simp
  moreover have "\<forall>b \<in> set cs. 128 \<le> byte b" using u(3) by (auto simp: list_all_iff is_cont_def)
  ultimately show ?thesis using u by simp
qed

lemma isdecimal_bytes:
  assumes "isdecimal u" "c \<in> set u"
  shows "ascii_digit c \<or> 128 \<le> byte c"
proof -
  obtain cp d where cp: "code_point u = Some cp" and d: "decimal_value cp = Some d"
    using assms by (auto simp: isdecimal_def split: option.splits)
  show ?thesis
  proof (cases "cp < 128")
    case True
    then obtain b where b: "u = [b]" "byte b = cp" using cp code_point_ascii [of u cp] by auto
    have "48 \<le> cp" "cp \<le> 57" using d True by (auto simp: decimal_value_def split: if_splits)
    then have "b = digit_chr (nat (byte b - 48))" using b by (intro byte_digit_chr) simp_all
    moreover have "nat (byte b - 48) < 10" using \<open>48 \<le> cp\<close> \<open>cp \<le> 57\<close> b by simp
    ultimately have "ascii_digit b" using ascii_digit_chr by metis
    then show ?thesis using assms(2) b by simp
  next
    case False
    then show ?thesis using code_point_bytes [OF cp] assms(2) by simp
  qed
qed

lemma utf8_chars_append:
  "ys = [] \<or> \<not> is_cont (hd ys) \<Longrightarrow> utf8_chars (xs @ ys) = utf8_chars xs @ utf8_chars ys"
proof (induction xs rule: utf8_chars.induct)
  case 1
  then show ?case by simp
next
  case (2 c cs)
  let ?n = "seq_len c"
  have tw: "takeWhile is_cont (take ?n (cs @ ys)) = takeWhile is_cont (take ?n cs)"
  proof (cases "list_all is_cont (take ?n cs)")
    case True
    have e: "takeWhile is_cont (take (?n - length cs) ys) = []"
      using "2.prems" by (cases ys; cases "?n - length cs") auto
    have a1: "takeWhile is_cont (take ?n cs) = take ?n cs"
      using True by (simp add: list_all_iff takeWhile_eq_all_conv)
    have "takeWhile is_cont (take ?n cs @ take (?n - length cs) ys)
          = take ?n cs @ takeWhile is_cont (take (?n - length cs) ys)"
      using True by (intro takeWhile_append2) (simp add: list_all_iff)
    then show ?thesis by (simp add: a1 e)
  next
    case False
    then obtain x where "x \<in> set (take ?n cs)" "\<not> is_cont x" by (auto simp: list_all_iff)
    then show ?thesis by (simp add: takeWhile_append1)
  qed
  let ?k = "length (takeWhile is_cont (take ?n cs))"
  have k: "?k \<le> length cs"
    using length_takeWhile_le [of is_cont "take ?n cs"] by simp
  then have dr: "drop ?k (cs @ ys) = drop ?k cs @ ys" by simp
  have step: "utf8_chars (c # (cs @ ys)) =
        (c # takeWhile is_cont (take ?n cs)) # utf8_chars (drop ?k cs @ ys)"
    unfolding utf8_chars.simps tw dr by (rule refl)
  have ih: "utf8_chars (drop ?k cs @ ys) = utf8_chars (drop ?k cs) @ utf8_chars ys"
    using "2.prems" by (rule "2.IH")
  have rhs: "utf8_chars (c # cs) =
        (c # takeWhile is_cont (take ?n cs)) # utf8_chars (drop ?k cs)"
    by (rule utf8_chars.simps(2))
  show ?case by (simp only: step ih rhs append_Cons)
qed

lemma stem_digits_concat: "stem_digits p = concat (stem_digit_chars p)"
  by (simp add: stem_digits_def stem_digit_chars_def join_filter_def)

lemma stem_digit_chars_isdigit: "\<forall>u \<in> set (stem_digit_chars p). isdigit u"
  by (simp add: stem_digit_chars_def)

lemma stem_digits_empty: "stem_digits p = [] \<longleftrightarrow> stem_digit_chars p = []"
proof -
  have "\<forall>u \<in> set (stem_digit_chars p). u \<noteq> []"
    by (auto simp: stem_digit_chars_def dest: utf8_chars_nonempty)
  then show ?thesis
    unfolding stem_digits_concat by (cases "stem_digit_chars p") auto
qed

lemma py_int_stem_digits:
  "py_int (stem_digits p) =
     (if stem_digit_chars p \<noteq> [] \<and> list_all isdecimal (stem_digit_chars p)
      then Some (int (digits_value (stem_digit_chars p))) else None)"
  unfolding stem_digits_concat using stem_digit_chars_isdigit by (rule py_int_digit_units)

lemma get_image_id_from_path_eq:
  "get_image_id_from_path p =
     (if stem_digit_chars p \<noteq> [] \<and> list_all isdecimal (stem_digit_chars p)
      then Some (int (digits_value (stem_digit_chars p))) else None)"
proof -
  have "get_image_id_from_path p = (if stem_digits p \<noteq> [] then py_int (stem_digits p) else None)"
    by (simp add: get_image_id_from_path_def stem_digits_def Let_def split: option.splits)
  then show ?thesis by (simp add: py_int_stem_digits stem_digits_empty)
qed

lemma get_image_id_eq:
  "get_image_id p =
     (if stem_digit_chars p \<noteq> [] \<and> list_all isdecimal (stem_digit_chars p)
      then Inr (int (digits_value (stem_digit_chars p))) else Inl ValueError)"
proof -
  have "get_image_id p = (case py_int (stem_digits p) of None \<Rightarrow> Inl ValueError | Some i \<Rightarrow> Inr i)"
    by (simp add: get_image_id_def stem_digits_def Let_def)
  then show ?thesis by (simp add: py_int_stem_digits)
qed

lemma get_image_id_from_path_nonneg: "get_image_id_from_path p = Some i \<Longrightarrow> 0 \<le> i"
  by (auto simp: get_image_id_from_path_eq split: if_splits)

lemma get_image_id_nonneg: "get_image_id p = Inr i \<Longrightarrow> 0 \<le> i"
  by (auto simp: get_image_id_eq split: if_splits)

lemma basename_idem: "basename (basename p) = basename p"
proof -
  have "\<forall>c \<in> set (takeWhile (\<lambda>c. \<not> is_sep c) (rev p)). \<not> is_sep c"
    by (auto dest: set_takeWhileD)
  then have "takeWhile (\<lambda>c. \<not> is_sep c) (takeWhile (\<lambda>c. \<not> is_sep c) (rev p))
             = takeWhile (\<lambda>c. \<not> is_sep c) (rev p)"
    by (intro takeWhile_eq_all_conv [THEN iffD2]) auto
  then show ?thesis by (simp add: basename_def)
qed

lemma stem_digit_chars_basename: "stem_digit_chars (basename p) = stem_digit_chars p"
  by (simp add: stem_digit_chars_def basename_idem)

lemma get_image_id_basename: "get_image_id (basename p) = get_image_id p"
  by (simp add: get_image_id_eq stem_digit_chars_basename)

lemma basename_append:
  "\<not> list_ex is_sep t \<Longrightarrow> basename (d @ ''/'' @ t) = t"
proof -
  assume a: "\<not> list_ex is_sep t"
  then have "takeWhile (\<lambda>c. \<not> is_sep c) (rev t @ CHR ''/'' # rev d) = rev t"
    by (intro takeWhile_append2 [THEN trans] ) (auto simp: list_ex_iff is_sep_def)
  then show ?thesis by (simp add: basename_def)
qed

lemma splitext_stem:
  assumes "\<not> list_ex is_sep (stem @ ext)" "CHR ''.'' \<notin> set ext" "list_ex (\<lambda>c. c \<noteq> CHR ''.'') stem"
  shows "splitext (stem @ ''.'' @ ext) = (stem, ''.'' @ ext)"
proof -
  let ?p = "stem @ ''.'' @ ext"
  have nosep: "\<not> list_ex is_sep ?p"
    using assms(1) by (auto simp: list_ex_iff is_sep_def)
  have b: "basename ?p = ?p"
  proof -
    have "takeWhile (\<lambda>c. \<not> is_sep c) (rev ?p) = rev ?p"
      using nosep by (intro takeWhile_eq_all_conv [THEN iffD2]) (auto simp: list_ex_iff)
    then have "rev (takeWhile (\<lambda>c. \<not> is_sep c) (rev ?p)) = ?p"
      by (simp only: rev_rev_ident)
    then show ?thesis by (simp only: basename_def)
  qed
  have e: "takeWhile (\<lambda>c. c \<noteq> CHR ''.'') (rev ext @ CHR ''.'' # rev stem) = rev ext"
    using assms(2) by (intro takeWhile_append2 [THEN trans]) auto
  have b': "basename (stem @ CHR ''.'' # ext) = stem @ CHR ''.'' # ext"
    using b by simp
  show ?thesis
    using assms(3) by (simp add: splitext_def b' e Let_def)
qed

lemma stem_digit_chars_name:
  assumes "Ds \<noteq> []" "list_all isdecimal Ds" "\<not> list_ex isdigit (utf8_chars name)"
    "\<not> list_ex is_sep (name @ ext)" "CHR ''.'' \<notin> set ext"
  shows "stem_digit_chars (dir @ ''/'' @ name @ concat Ds @ ''.'' @ ext) = Ds"
proof -
  let ?D = "concat Ds"
  have bts: "\<forall>c \<in> set ?D. ascii_digit c \<or> 128 \<le> byte c"
    using assms(2) by (auto simp: list_all_iff dest: isdecimal_bytes)
  have nb: "\<forall>c \<in> set ?D. c \<noteq> CHR ''/'' \<and> c \<noteq> CHR ''.''"
  proof
    fix c assume "c \<in> set ?D"
    then have "ascii_digit c \<or> 128 \<le> byte c" using bts by blast
    then show "c \<noteq> CHR ''/'' \<and> c \<noteq> CHR ''.''"
      by (auto simp: ascii_digit_def byte_def)
  qed
  obtain u us where Ds: "Ds = u # us" using assms(1) by (cases Ds) auto
  then have "isdecimal u" using assms(2) by simp
  then obtain cp where cp: "code_point u = Some cp" by (auto simp: isdecimal_def split: option.splits)
  have hd: "?D \<noteq> [] \<and> \<not> is_cont (hd ?D)"
    using code_point_hd_not_cont [OF cp] Ds by (cases u) auto
  have dsep: "\<not> list_ex is_sep ?D"
    using nb by (auto simp: list_ex_iff is_sep_def)
  have nosep: "\<not> list_ex is_sep (name @ ?D @ ''.'' @ ext)"
    using assms(4) dsep by (auto simp: list_ex_iff is_sep_def)
  have b: "basename (dir @ ''/'' @ name @ ?D @ ''.'' @ ext) = name @ ?D @ ''.'' @ ext"
    using nosep by (rule basename_append)
  have nd: "list_ex (\<lambda>c. c \<noteq> CHR ''.'') (name @ ?D)"
    using hd nb by (cases ?D) (auto simp: list_ex_iff)
  have "splitext ((name @ ?D) @ ''.'' @ ext) = (name @ ?D, ''.'' @ ext)"
    using assms(4,5) dsep nd by (intro splitext_stem) (auto simp: list_ex_iff)
  then have sp: "fst (splitext (name @ ?D @ ''.'' @ ext)) = name @ ?D" by simp
  have "utf8_chars (name @ ?D) = utf8_chars name @ utf8_chars ?D"
    using hd by (intro utf8_chars_append) simp
  also have "utf8_chars ?D = Ds"
    using assms(2) by (intro utf8_chars_concat) (auto simp: list_all_iff isdecimal_def split: option.splits)
  finally have uc: "utf8_chars (name @ ?D) = utf8_chars name @ Ds" .
  have f: "filter isdigit (utf8_chars name @ Ds) = Ds"
    using assms(2,3)
    by (auto simp: list_ex_iff list_all_iff filter_empty_conv filter_id_conv dest: isdecimal_isdigit)
  show ?thesis
    unfolding stem_digit_chars_def b sp uc f by (rule refl)
qed

lemma unique_images_ids:
  "\<forall>kv \<in> set d. get_image_id (snd kv) = Inr (fst kv) \<Longrightarrow>
   \<forall>kv \<in> set (unique_images ps d). get_image_id (snd kv) = Inr (fst kv)"
proof (induction ps arbitrary: d)
  case Nil
  then show ?case by simp
next
  case (Cons p ps)
  show ?case
  proof (cases "get_image_id p")
    case (Inl e)
    then show ?thesis using Cons by (cases e) simp
  next
    case (Inr i)
    show ?thesis
    proof (cases "i \<in> fst ` set d")
      case True
      then show ?thesis using Inr Cons by simp
    next
      case False
      have "\<forall>kv \<in> set (d @ [(i, p)]). get_image_id (snd kv) = Inr (fst kv)"
        using Cons.prems Inr by auto
      from Cons.IH [OF this] show ?thesis using Inr False by simp
    qed
  qed
qed

lemma load_images_and_texts_ids:
  "\<forall>p \<in> set (fst (load_images_and_texts fs d)). get_image_id p \<noteq> Inl ValueError"
  "\<forall>pr \<in> set (fst (snd (load_images_and_texts fs d))). get_image_id (fst pr) \<noteq> Inl ValueError"
  "\<forall>p \<in> set (snd (snd (load_images_and_texts fs d))). get_image_id p \<noteq> Inl ValueError"
proof -
  let ?found = "map (join d) (filter (\<lambda>f. list_ex (endswith (lower f)) [''.png'', ''.jpg'', ''.jpeg''])
                   (os_listdir fs d))"
  let ?sorted = "map snd (sort_key fst (unique_images ?found []))"
  have ids: "\<forall>kv \<in> set (unique_images ?found []). get_image_id (snd kv) = Inr (fst kv)"
    by (rule unique_images_ids) simp
  have srt: "\<forall>p \<in> set ?sorted. get_image_id p \<noteq> Inl ValueError"
  proof
    fix p assume "p \<in> set ?sorted"
    then obtain i where "(i, p) \<in> set (unique_images ?found [])" by auto
    with ids have "get_image_id p = Inr i" by auto
    then show "get_image_id p \<noteq> Inl ValueError" by simp
  qed
  have prs: "\<forall>pr \<in> set (List.map_filter (paired_image fs) ?sorted).
               get_image_id (fst pr) \<noteq> Inl ValueError"
    using srt by (auto simp: map_filter_def paired_image_def split: option.splits if_splits)
  show "\<forall>p \<in> set (fst (load_images_and_texts fs d)). get_image_id p \<noteq> Inl ValueError"
    using srt by (auto simp: load_images_and_texts_def Let_def dest!: in_set_takeD)
  show "\<forall>pr \<in> set (fst (snd (load_images_and_texts fs d))). get_image_id (fst pr) \<noteq> Inl ValueError"
    using prs by (auto simp: load_images_and_texts_def Let_def dest!: in_set_takeD)
  show "\<forall>p \<in> set (snd (snd (load_images_and_texts fs d))). get_image_id p \<noteq> Inl ValueError"
    using srt by (auto simp: load_images_and_texts_def Let_def dest!: in_set_takeD)
qed

lemma remaining_items_ids:
  "it \<in> set (remaining_items tr items) \<Longrightarrow> get_image_id_from_path (image_path it) \<noteq> None"
  by (auto simp: remaining_items_def split: option.splits)

lemma get_remaining_images_ids:
  "p \<in> set (get_remaining_images imgs ks) \<Longrightarrow> get_image_id p \<noteq> Inl ValueError"
  by (auto simp: get_remaining_images_def get_image_id_basename split: sum.splits)

lemma get_remaining_image_text_pairs_ids:
  "pr \<in> set (get_remaining_image_text_pairs pairs ks) \<Longrightarrow> get_image_id (fst pr) \<noteq> Inl ValueError"
  by (auto simp: get_remaining_image_text_pairs_def get_image_id_basename split: sum.splits)

section \<open>ID extraction\<close>

lemma ascii_digit_unit:
  assumes "ascii_digit c"
  shows "isdecimal [c] \<and> decimal_of [c] = digit_val c"
proof -
  have b: "48 \<le> byte c \<and> byte c \<le> 57"
    using assms by (auto simp: ascii_digit_def byte_def)
  then have cp: "code_point [c] = Some (byte c)" by (simp add: code_point_single)
  have dv: "decimal_value (byte c) = Some (byte c - 48)" using b by (simp add: decimal_value_def)
  have "nat (byte c - 48) = digit_val c"
    using b by (simp add: byte_def digit_val_def of_char_of [symmetric] nat_diff_distrib')
  then show ?thesis using cp dv by (simp add: isdecimal_def decimal_of_def)
qed

lemma digits_value_ascii:
  "list_all ascii_digit D \<Longrightarrow> digits_value (map (\<lambda>c. [c]) D) = dec_value D"
proof -
  assume a: "list_all ascii_digit D"
  have "foldl (\<lambda>n u. 10 * n + decimal_of u) m (map (\<lambda>c. [c]) D)
        = foldl (\<lambda>n c. 10 * n + digit_val c) m D" for m
    using a by (induction D arbitrary: m) (simp_all add: ascii_digit_unit)
  then show ?thesis by (simp add: digits_value_def dec_value_def)
qed

lemma stem_digit_chars_ascii_name:
  assumes "D \<noteq> []" "list_all ascii_digit D" "\<not> list_ex isdigit (utf8_chars name)"
    "\<not> list_ex is_sep (name @ ext)" "CHR ''.'' \<notin> set ext"
  shows "stem_digit_chars (dir @ ''/'' @ name @ D @ ''.'' @ ext) = map (\<lambda>c. [c]) D"
proof -
  let ?Ds = "map (\<lambda>c. [c]) D"
  have c: "concat ?Ds = D" by (induction D) simp_all
  have "stem_digit_chars (dir @ ''/'' @ name @ concat ?Ds @ ''.'' @ ext) = ?Ds"
    using assms by (intro stem_digit_chars_name) (auto simp: list_all_iff ascii_digit_unit)
  then show ?thesis by (simp only: c)
qed

text \<open>
  Claim C7, as the code has it. The digit characters of a stem are those of
  \<^verbatim>\<open>str.isdigit\<close>. When the stem has digit characters and all of them are decimal
  digits (the ASCII digits, and the digits \<open>0\<close> to \<open>9\<close> of the other scripts), both
  scripts extract the integer written by these digits taken together, in order; so a
  name made of a digit-free part, a sequence \<open>D\<close> of ASCII digits, a dot and an
  extension yields the value of \<open>D\<close>. When the stem has no digit character, or has a
  digit character that is no decimal digit (a superscript or circled digit, which
  \<^verbatim>\<open>int\<close> does not read), the direct-mode function answers \<open>None\<close> and the batch
  function raises \<open>ValueError\<close>, which its callers catch: the batch loader returns
  normally and leaves the file out of all three of its lists, and neither dispatcher
  keeps the file among the items it still has to process.
\<close>

theorem id_extraction:
  "(stem_digit_chars p \<noteq> [] \<and> list_all isdecimal (stem_digit_chars p) \<longrightarrow>
      py_int (stem_digits p) = Some (int (digits_value (stem_digit_chars p))) \<and>
      get_image_id_from_path p = Some (int (digits_value (stem_digit_chars p))) \<and>
      get_image_id p = Inr (int (digits_value (stem_digit_chars p)))) \<and>
   (D \<noteq> [] \<and> list_all ascii_digit D \<and> \<not> list_ex isdigit (utf8_chars name) \<and>
    \<not> list_ex is_sep (name @ ext) \<and> CHR ''.'' \<notin> set ext \<longrightarrow>
      py_int D = Some (int (dec_value D)) \<and>
      get_image_id_from_path (dir @ ''/'' @ name @ D @ ''.'' @ ext) = Some (int (dec_value D)) \<and>
      get_image_id (dir @ ''/'' @ name @ D @ ''.'' @ ext) = Inr (int (dec_value D))) \<and>
   (stem_digit_chars q = [] \<or> \<not> list_all isdecimal (stem_digit_chars q) \<longrightarrow>
      get_image_id_from_path q = None \<and>
      get_image_id q = Inl ValueError \<and>
      q \<notin> set (fst (load_images_and_texts fs d)) \<and>
      q \<notin> fst ` set (fst (snd (load_images_and_texts fs d))) \<and>
      q \<notin> set (snd (snd (load_images_and_texts fs d))) \<and>
      q \<notin> set (get_remaining_images imgs ks) \<and>
      q \<notin> fst ` set (get_remaining_image_text_pairs pairs ks) \<and>
      q \<notin> image_path ` set (remaining_items res items))"
proof (intro conjI impI)
  assume "stem_digit_chars p \<noteq> [] \<and> list_all isdecimal (stem_digit_chars p)"
  then show "py_int (stem_digits p) = Some (int (digits_value (stem_digit_chars p)))"
    and "get_image_id_from_path p = Some (int (digits_value (stem_digit_chars p)))"
    and "get_image_id p = Inr (int (digits_value (stem_digit_chars p)))"
    by (simp_all add: py_int_stem_digits get_image_id_from_path_eq get_image_id_eq)
next
  assume a: "D \<noteq> [] \<and> list_all ascii_digit D \<and> \<not> list_ex isdigit (utf8_chars name) \<and>
    \<not> list_ex is_sep (name @ ext) \<and> CHR ''.'' \<notin> set ext"
  let ?p = "dir @ ''/'' @ name @ D @ ''.'' @ ext"
  have sd: "stem_digit_chars ?p = map (\<lambda>c. [c]) D"
    using a by (intro stem_digit_chars_ascii_name) simp_all
  have dec: "list_all isdecimal (map (\<lambda>c. [c]) D)"
    using a by (auto simp: list_all_iff ascii_digit_unit)
  have v: "digits_value (map (\<lambda>c. [c]) D) = dec_value D"
    using a by (intro digits_value_ascii) simp
  show "py_int D = Some (int (dec_value D))"
    using a by (intro py_int_digits) simp_all
  show "get_image_id_from_path ?p = Some (int (dec_value D))"
    unfolding get_image_id_from_path_eq sd v using a dec by simp
  show "get_image_id ?p = Inr (int (dec_value D))"
    unfolding get_image_id_eq sd v using a dec by simp
next
  assume q: "stem_digit_chars q = [] \<or> \<not> list_all isdecimal (stem_digit_chars q)"
  show n: "get_image_id_from_path q = None" using q by (auto simp: get_image_id_from_path_eq)
  show e: "get_image_id q = Inl ValueError" using q by (auto simp: get_image_id_eq)
  show "q \<notin> set (fst (load_images_and_texts fs d))"
    using e load_images_and_texts_ids(1) [of fs d] by blast
  show "q \<notin> fst ` set (fst (snd (load_images_and_texts fs d)))"
    using e load_images_and_texts_ids(2) [of fs d] by force
  show "q \<notin> set (snd (snd (load_images_and_texts fs d)))"
    using e load_images_and_texts_ids(3) [of fs d] by blast
  show "q \<notin> set (get_remaining_images imgs ks)"
    using e get_remaining_images_ids by blast
  show "q \<notin> fst ` set (get_remaining_image_text_pairs pairs ks)"
    using e get_remaining_image_text_pairs_ids by force
  show "q \<notin> image_path ` set (remaining_items res items)"
    using n remaining_items_ids by force
qed

theorem id_extraction_witness:
  "stem_digit_chars arabic_three \<noteq> [] \<and> list_all isdecimal (stem_digit_chars arabic_three) \<and>
   get_image_id_from_path arabic_three = Some 3 \<and>
   get_image_id arabic_three = Inr 3 \<and>
   ''123'' \<noteq> [] \<and> list_all ascii_digit ''123'' \<and> \<not> list_ex isdigit (utf8_chars ''image'') \<and>
   \<not> list_ex is_sep (''image'' @ ''jpg'') \<and> CHR ''.'' \<notin> set ''jpg'' \<and>
   get_image_id_from_path (''data'' @ ''/'' @ ''image'' @ ''123'' @ ''.'' @ ''jpg'') = Some 123 \<and>
   get_image_id (''data'' @ ''/'' @ ''image'' @ ''123'' @ ''.'' @ ''jpg'') = Inr 123 \<and>
   stem_digit_chars ''data/cover.jpg'' = [] \<and>
   get_image_id_from_path ''data/cover.jpg'' = None \<and>
   get_image_id ''data/cover.jpg'' = Inl ValueError \<and>
   ''data/cover.jpg'' \<notin> set (fst (load_images_and_texts
       (fs_of ''data'' [''cover.jpg'', ''image123.jpg'']) ''data'')) \<and>
   ''data/cover.jpg'' \<notin> image_path ` set (remaining_items []
       [\<lparr>image_path = ''data/cover.jpg'', text_path = None\<rparr>,
        \<lparr>image_path = ''data/image123.jpg'', text_path = None\<rparr>])"
proof -
  have h1: "stem_digit_chars arabic_three \<noteq> [] \<and> list_all isdecimal (stem_digit_chars arabic_three)"
    by code_simp
  have h2: "int (digits_value (stem_digit_chars arabic_three)) = 3" by code_simp
  have h3: "int (dec_value ''123'') = 123" by code_simp
  have h4: "''123'' \<noteq> [] \<and> list_all ascii_digit ''123'' \<and> \<not> list_ex isdigit (utf8_chars ''image'') \<and>
    \<not> list_ex is_sep (''image'' @ ''jpg'') \<and> CHR ''.'' \<notin> set ''jpg''" by code_simp
  have h5: "stem_digit_chars ''data/cover.jpg'' = []" by code_simp
  note t = id_extraction [where p = arabic_three and D = "''123''" and name = "''image''"
      and ext = "''jpg''" and dir = "''data''" and q = "''data/cover.jpg''"
      and fs = "fs_of ''data'' [''cover.jpg'', ''image123.jpg'']" and d = "''data''"
      and res = "[]"
      and items = "[\<lparr>image_path = ''data/cover.jpg'', text_path = None\<rparr>,
        \<lparr>image_path = ''data/image123.jpg'', text_path = None\<rparr>]"]
  have a: "get_image_id_from_path arabic_three = Some 3 \<and> get_image_id arabic_three = Inr 3"
    using t [THEN conjunct1, THEN mp, OF h1] unfolding h2 by simp
  have b: "get_image_id_from_path (''data'' @ ''/'' @ ''image'' @ ''123'' @ ''.'' @ ''jpg'') = Some 123 \<and>
           get_image_id (''data'' @ ''/'' @ ''image'' @ ''123'' @ ''.'' @ ''jpg'') = Inr 123"
    using t [THEN conjunct2, THEN conjunct1, THEN mp, OF h4] unfolding h3 by simp
  have c: "get_image_id_from_path ''data/cover.jpg'' = None \<and>
   get_image_id ''data/cover.jpg'' = Inl ValueError \<and>
   ''data/cover.jpg'' \<notin> set (fst (load_images_and_texts
       (fs_of ''data'' [''cover.jpg'', ''image123.jpg'']) ''data'')) \<and>
   ''data/cover.jpg'' \<notin> image_path ` set (remaining_items []
       [\<lparr>image_path = ''data/cover.jpg'', text_path = None\<rparr>,
        \<lparr>image_path = ''data/image123.jpg'', text_path = None\<rparr>])"
    using t [THEN conjunct2, THEN conjunct2, THEN mp, OF disjI1, OF h5] by simp
  from h1 a h4 b h5 c show ?thesis
    by (elim conjE) (intro conjI; assumption)
qed

text \<open>
  The stem of the first name has two digit characters, the superscript two and the
  five, and no ID is extracted from it: \<^verbatim>\<open>int\<close> raises on the superscript. The file
  is left out like one without digits.
\<close>

theorem id_extraction_counterexample:
  "stem_digit_chars superscript_two_five = [[CHR 0xC2, CHR 0xB2], ''5''] \<and>
   list_all isdigit (stem_digit_chars superscript_two_five) \<and>
   stem_digits superscript_two_five \<noteq> [] \<and>
   py_int (stem_digits superscript_two_five) = None \<and>
   get_image_id_from_path superscript_two_five = None \<and>
   get_image_id superscript_two_five = Inl ValueError"
  by code_simp

section \<open>Text pairing\<close>

text \<open>
  Claim C2, as the code has it. The direct-mode script tries the names built from the
  stem first and those built from the integer ID second, and returns the first that
  exists. The batch script looks for nothing when the stem has no digit; otherwise it
  tries the four names built from the digit string first and the two built from the stem
  last. So when a stem-named text file exists the direct-mode script returns it, and when
  the file \<open>text\<close>-digits-\<open>.txt\<close> exists the batch script returns that one, whatever
  else exists.
\<close>

theorem text_pairing_order:
  "find_matching_text_file fs p =
     find (path_exists fs)
       (map (join (dirname p))
          ([fst (splitext (basename p)) @ ''.txt'', fst (splitext (basename p)) @ ''.text''] @
           (case get_image_id_from_path p of None \<Rightarrow> [] | Some i \<Rightarrow> id_text_names (py_str i)))) \<and>
   find_matching_text_file_batch fs p =
     (if stem_digits p = [] then None
      else find (path_exists fs)
             (map (join (dirname p))
                (id_text_names (stem_digits p) @
                 [fst (splitext (basename p)) @ ''.txt'', fst (splitext (basename p)) @ ''.text'']))) \<and>
   (path_exists fs (join (dirname p) (fst (splitext (basename p)) @ ''.txt'')) \<longrightarrow>
      find_matching_text_file fs p = Some (join (dirname p) (fst (splitext (basename p)) @ ''.txt''))) \<and>
   (stem_digits p \<noteq> [] \<and> path_exists fs (join (dirname p) (''text'' @ stem_digits p @ ''.txt'')) \<longrightarrow>
      find_matching_text_file_batch fs p = Some (join (dirname p) (''text'' @ stem_digits p @ ''.txt'')))"
proof (intro conjI impI)
  show "find_matching_text_file fs p =
     find (path_exists fs)
       (map (join (dirname p))
          ([fst (splitext (basename p)) @ ''.txt'', fst (splitext (basename p)) @ ''.text''] @
           (case get_image_id_from_path p of None \<Rightarrow> [] | Some i \<Rightarrow> id_text_names (py_str i))))"
    by (simp add: find_matching_text_file_def Let_def split: option.splits)
  show "find_matching_text_file_batch fs p =
     (if stem_digits p = [] then None
      else find (path_exists fs)
             (map (join (dirname p))
                (id_text_names (stem_digits p) @
                 [fst (splitext (basename p)) @ ''.txt'', fst (splitext (basename p)) @ ''.text''])))"
    by (simp add: find_matching_text_file_batch_def stem_digits_def Let_def)
next
  assume "path_exists fs (join (dirname p) (fst (splitext (basename p)) @ ''.txt''))"
  then show "find_matching_text_file fs p =
      Some (join (dirname p) (fst (splitext (basename p)) @ ''.txt''))"
    by (simp add: find_matching_text_file_def Let_def)
next
  assume "stem_digits p \<noteq> [] \<and> path_exists fs (join (dirname p) (''text'' @ stem_digits p @ ''.txt''))"
  then show "find_matching_text_file_batch fs p =
      Some (join (dirname p) (''text'' @ stem_digits p @ ''.txt''))"
    by (simp add: find_matching_text_file_batch_def stem_digits_def Let_def id_text_names_def)
qed

theorem text_pairing_order_witness:
  "path_exists (fs_of ''data'' [''image5.jpg'', ''image5.txt'', ''text5.txt''])
     (join (dirname ''data/image5.jpg'') (fst (splitext (basename ''data/image5.jpg'')) @ ''.txt'')) \<and>
   stem_digits ''data/image5.jpg'' \<noteq> [] \<and>
   path_exists (fs_of ''data'' [''image5.jpg'', ''image5.txt'', ''text5.txt''])
     (join (dirname ''data/image5.jpg'') (''text'' @ stem_digits ''data/image5.jpg'' @ ''.txt'')) \<and>
   find_matching_text_file (fs_of ''data'' [''image5.jpg'', ''image5.txt'', ''text5.txt''])
     ''data/image5.jpg'' = Some ''data/image5.txt'' \<and>
   find_matching_text_file_batch (fs_of ''data'' [''image5.jpg'', ''image5.txt'', ''text5.txt''])
     ''data/image5.jpg'' = Some ''data/text5.txt''"
proof -
  let ?fs = "fs_of ''data'' [''image5.jpg'', ''image5.txt'', ''text5.txt'']"
  let ?p = "''data/image5.jpg''"
  have a1: "path_exists ?fs (join (dirname ?p) (fst (splitext (basename ?p)) @ ''.txt''))"
    by code_simp
  have a2: "stem_digits ?p \<noteq> []"
    by code_simp
  have a3: "path_exists ?fs (join (dirname ?p) (''text'' @ stem_digits ?p @ ''.txt''))"
    by code_simp
  have e1: "join (dirname ?p) (fst (splitext (basename ?p)) @ ''.txt'') = ''data/image5.txt''"
    by code_simp
  have e2: "join (dirname ?p) (''text'' @ stem_digits ?p @ ''.txt'') = ''data/text5.txt''"
    by code_simp
  note t = text_pairing_order [of ?fs ?p]
  have r1: "find_matching_text_file ?fs ?p = Some ''data/image5.txt''"
    using t a1 unfolding e1 by blast
  have r2: "find_matching_text_file_batch ?fs ?p = Some ''data/text5.txt''"
    using t a2 a3 unfolding e2 by blast
  show ?thesis
    using a1 a2 a3 r1 r2 by blast
qed

text \<open>
  With \<open>image5.txt\<close> and \<open>text5.txt\<close> both present beside \<open>image5.jpg\<close>, the batch
  script returns \<open>text5.txt\<close>, not the stem-named file.
\<close>

theorem batch_pairing_counterexample:
  "path_exists (fs_of ''data'' [''image5.jpg'', ''image5.txt'', ''text5.txt'']) ''data/image5.txt'' \<and>
   path_exists (fs_of ''data'' [''image5.jpg'', ''image5.txt'', ''text5.txt'']) ''data/text5.txt'' \<and>
   find_matching_text_file_batch (fs_of ''data'' [''image5.jpg'', ''image5.txt'', ''text5.txt''])
     ''data/image5.jpg'' = Some ''data/text5.txt'' \<and>
   find_matching_text_file_batch (fs_of ''data'' [''image5.jpg'', ''image5.txt'', ''text5.txt''])
     ''data/image5.jpg'' \<noteq> Some ''data/image5.txt''"
  by code_simp

section \<open>The result mapping\<close>

lemma dict_set_keys_distinct: "distinct (map fst d) \<Longrightarrow> distinct (map fst (dict_set d k v))"
  by (simp add: dict_set_def distinct_update)

lemma dict_update_snoc: "dict_update d (e @ [kv]) = dict_set (dict_update d e) (fst kv) (snd kv)"
  by (simp add: dict_update_def)

lemma update_fresh: "k \<notin> fst ` set al \<Longrightarrow> AList.update k v al = al @ [(k, v)]"
  by (induction al) auto

lemma dict_update_append_distinct:
  "distinct (map fst (d @ e)) \<Longrightarrow> dict_update d e = d @ e"
proof (induction e rule: rev_induct)
  case Nil
  then show ?case by (simp add: dict_update_def)
next
  case (snoc kv e)
  then have ih: "dict_update d e = d @ e" by simp
  have nk: "fst kv \<notin> fst ` set (d @ e)" using snoc.prems by auto
  show ?case using update_fresh [OF nk] by (simp add: dict_update_snoc ih dict_set_def)
qed

lemma dict_of_distinct: "distinct (map fst d) \<Longrightarrow> dict_of d = d"
  using dict_update_append_distinct [of "[]" d] by (simp add: dict_of_def)

lemma distinct_map_fst_sort_key:
  "distinct (map fst d) \<Longrightarrow> distinct (map fst (sort_key f d))"
proof -
  assume a: "distinct (map fst d)"
  have "mset (map fst (sort_key f d)) = mset (map fst d)" by simp
  then show ?thesis using a by (metis mset_eq_imp_distinct_iff)
qed

section \<open>The finalizer\<close>

text \<open>
  Claim C9. On a result mapping whose keys all read as integers, the finalizer returns
  the entries ordered by the integer value of their keys, ascending: the same entries,
  each key's integer being what \<^verbatim>\<open>int\<close> reads, entries of equal value in their former
  order. It is a function of the mapping alone. Keys \<open>9\<close>, \<open>10\<close>, \<open>2\<close> come out as
  \<open>2\<close>, \<open>9\<close>, \<open>10\<close>.
\<close>

theorem finalizer_numeric_order:
  "list_all (\<lambda>kv. py_int (fst kv) \<noteq> None) d \<and> distinct (map fst d) \<longrightarrow>
     sorted_results d = Inr (sort_key key_int d) \<and>
     sorted (map key_int (sort_key key_int d)) \<and>
     mset (sort_key key_int d) = mset d \<and>
     (\<forall>kv \<in> set d. py_int (fst kv) = Some (key_int kv)) \<and>
     (\<forall>i. filter (\<lambda>kv. key_int kv = i) (sort_key key_int d) = filter (\<lambda>kv. key_int kv = i) d)"
proof (intro impI, elim conjE)
  assume keys: "list_all (\<lambda>kv. py_int (fst kv) \<noteq> None) d" and dist: "distinct (map fst d)"
  have "dict_of (sort_key key_int d) = sort_key key_int d"
    using dist by (intro dict_of_distinct distinct_map_fst_sort_key)
  then have r: "sorted_results d = Inr (sort_key key_int d)"
    using keys by (simp add: sorted_results_def)
  have v: "\<forall>kv \<in> set d. py_int (fst kv) = Some (key_int kv)"
    using keys by (auto simp: list_all_iff key_int_def)
  show "sorted_results d = Inr (sort_key key_int d) \<and>
     sorted (map key_int (sort_key key_int d)) \<and>
     mset (sort_key key_int d) = mset d \<and>
     (\<forall>kv \<in> set d. py_int (fst kv) = Some (key_int kv)) \<and>
     (\<forall>i. filter (\<lambda>kv. key_int kv = i) (sort_key key_int d) = filter (\<lambda>kv. key_int kv = i) d)"
    using r v by (simp add: sort_key_stable)
qed

theorem finalizer_numeric_order_witness:
  "list_all (\<lambda>kv. py_int (fst kv) \<noteq> None) [(''9'', ''a''), (''10'', ''b''), (''2'', ''c'')] \<and>
   distinct (map fst [(''9'', ''a''), (''10'', ''b''), (''2'', ''c'')]) \<and>
   sorted_results [(''9'', ''a''), (''10'', ''b''), (''2'', ''c'')]
     = Inr [(''2'', ''c''), (''9'', ''a''), (''10'', ''b'')]"
proof -
  let ?d = "[(''9'', ''a''), (''10'', ''b''), (''2'', ''c'')]"
  have h1: "list_all (\<lambda>kv. py_int (fst kv) \<noteq> None) ?d" by code_simp
  have h2: "distinct (map fst ?d)" by code_simp
  have e: "sort_key key_int ?d = [(''2'', ''c''), (''9'', ''a''), (''10'', ''b'')]" by code_simp
  have "sorted_results ?d = Inr (sort_key key_int ?d)"
    using finalizer_numeric_order [of ?d] h1 h2 by blast
  then show ?thesis using h1 h2 unfolding e by blast
qed

section \<open>One model request\<close>

lemma retry_loop_all_raise:
  assumes "\<forall>i<R. call i = Raises (msg i)" "k < R"
  shows "retry_loop call R d [k..<R] =
     \<lparr>response_text = ''Error: After '' @ py_str (int R) @ '' attempts - '' @ msg (R - 1),
      sleeps = map (\<lambda>i. d * 2 ^ i) [k..<R - 1], calls = R - k\<rparr>"
  using assms(2)
proof (induction "R - k" arbitrary: k)
  case 0
  then show ?case by simp
next
  case (Suc n)
  have c: "call k = Raises (msg k)" using assms(1) Suc.prems by simp
  have u: "[k..<R] = k # [Suc k..<R]" using Suc.prems by (simp add: upt_conv_Cons)
  show ?case
  proof (cases "Suc k = R")
    case True
    have e1: "[Suc k..<R] = []" using True by simp
    have e2: "[k..<R - 1] = []" using True by auto
    have e3: "msg (R - 1) = msg k" using True by auto
    have e4: "R - k = 1" using True by auto
    have e5: "\<not> int k < int R - 1" using True by auto
    show ?thesis
      unfolding u e2 e3 e4 using c e5 by (simp add: attempt_body_def)
  next
    case False
    then have lt: "Suc k < R" using Suc.prems by simp
    have n: "n = R - Suc k" using Suc.hyps(2) by simp
    have u2: "[k..<R - Suc 0] = k # [Suc k..<R - Suc 0]" using lt by (simp add: upt_conv_Cons)
    have i: "int k < int R - 1" using lt by simp
    show ?thesis
      using Suc.hyps(1) [OF n lt] c i lt
      by (simp add: u u2 attempt_body_def Suc_diff_Suc)
  qed
qed

lemma retry_loop_returns:
  assumes "\<forall>i<k. call i = Raises (msg i)" "k < R" "attempt_body (call k) = Inr t" "j \<le> k"
  shows "retry_loop call R d [j..<R] =
     \<lparr>response_text = t, sleeps = map (\<lambda>i. d * 2 ^ i) [j..<k], calls = Suc k - j\<rparr>"
  using assms(4)
proof (induction "k - j" arbitrary: j)
  case 0
  then have "j = k" by simp
  then show ?case using assms(2,3) by (simp add: upt_conv_Cons)
next
  case (Suc n)
  then have lt: "j < k" by simp
  have c: "call j = Raises (msg j)" using assms(1) lt by simp
  have u: "[j..<R] = j # [Suc j..<R]" using lt assms(2) by (simp add: upt_conv_Cons)
  have u2: "[j..<k] = j # [Suc j..<k]" using lt by (simp add: upt_conv_Cons)
  have i: "int j < int R - 1" using lt assms(2) by simp
  have n: "n = k - Suc j" using Suc.hyps(2) by simp
  have le: "Suc j \<le> k" using lt by simp
  show ?case
    using Suc.hyps(1) [OF n le] c i lt
    by (simp add: u u2 attempt_body_def Suc_diff_le)
qed

lemma retry_loop_string:
  "(\<exists>a \<in> set as. attempt_body (call a) = Inr (response_text (retry_loop call R d as))) \<or>
   take 7 (response_text (retry_loop call R d as)) = ''Error: ''"
proof (induction as)
  case Nil
  show ?case by simp
next
  case (Cons a as)
  show ?case
  proof (cases "attempt_body (call a)")
    case (Inr t)
    then show ?thesis by simp
  next
    case (Inl e)
    then show ?thesis using Cons by (auto simp: Let_def)
  qed
qed

lemma retry_loop_calls: "calls (retry_loop call R d as) \<le> length as"
proof (induction as)
  case Nil
  show ?case by simp
next
  case (Cons a as)
  then show ?case by (cases "attempt_body (call a)") (auto simp: Let_def)
qed

text \<open>
  Claim C5. A model request returns a string in every case: the text some attempt
  returned, or a string that starts with \<open>Error: \<close>; exceptions of the attempts are
  caught, and at most \<open>R\<close> requests are sent. When every one of the \<open>R\<close> attempts raises,
  \<open>R\<close> requests are sent, the delays slept between them are the base delay times two to
  the attempt number, and the result is the error string that names \<open>R\<close> and the last
  exception. When an attempt gets a response without content, the result is the error
  string with the finish reason (\<open>UNKNOWN\<close> when there is no candidate), and no further
  attempt is made. With the configured three attempts and five seconds the delays are
  5 and 10.
\<close>

theorem request_error_capture:
  "((\<exists>a<R. attempt_body (call a) = Inr (response_text (generate_gemini_response call R d))) \<or>
    take 7 (response_text (generate_gemini_response call R d)) = ''Error: '') \<and>
   calls (generate_gemini_response call R d) \<le> R \<and>
   (0 < R1 \<and> (\<forall>i<R1. call1 i = Raises (msg1 i)) \<longrightarrow>
      generate_gemini_response call1 R1 d =
        \<lparr>response_text = ''Error: After '' @ py_str (int R1) @ '' attempts - '' @ msg1 (R1 - 1),
         sleeps = map (\<lambda>attempt. d * 2 ^ attempt) [0..<R1 - 1], calls = R1\<rparr>) \<and>
   (k < R2 \<and> (\<forall>i<k. call2 i = Raises (msg2 i)) \<and> call2 k = Responds cs \<and>
    (cs = [] \<or> parts (hd cs) = []) \<longrightarrow>
      generate_gemini_response call2 R2 d =
        \<lparr>response_text =
           ''Error: No content in response (Finish reason: '' @
           (if cs = [] then ''UNKNOWN'' else finish_reason (hd cs)) @ '', Safety: '' @
           (if cs = [] then ''[]'' else safety_ratings (hd cs)) @ '')'',
         sleeps = map (\<lambda>attempt. d * 2 ^ attempt) [0..<k], calls = Suc k\<rparr>)"
proof (intro conjI impI)
  show "(\<exists>a<R. attempt_body (call a) = Inr (response_text (generate_gemini_response call R d))) \<or>
    take 7 (response_text (generate_gemini_response call R d)) = ''Error: ''"
    using retry_loop_string [of "[0..<R]" call R d] by (auto simp: generate_gemini_response_def)
  show "calls (generate_gemini_response call R d) \<le> R"
    using retry_loop_calls [of call R d "[0..<R]"] by (simp add: generate_gemini_response_def)
next
  assume "0 < R1 \<and> (\<forall>i<R1. call1 i = Raises (msg1 i))"
  then show "generate_gemini_response call1 R1 d =
        \<lparr>response_text = ''Error: After '' @ py_str (int R1) @ '' attempts - '' @ msg1 (R1 - 1),
         sleeps = map (\<lambda>attempt. d * 2 ^ attempt) [0..<R1 - 1], calls = R1\<rparr>"
    using retry_loop_all_raise [of R1 call1 msg1 0 d] by (simp add: generate_gemini_response_def)
next
  assume a: "k < R2 \<and> (\<forall>i<k. call2 i = Raises (msg2 i)) \<and> call2 k = Responds cs \<and>
    (cs = [] \<or> parts (hd cs) = [])"
  let ?t = "''Error: No content in response (Finish reason: '' @
           (if cs = [] then ''UNKNOWN'' else finish_reason (hd cs)) @ '', Safety: '' @
           (if cs = [] then ''[]'' else safety_ratings (hd cs)) @ '')''"
  have b: "attempt_body (call2 k) = Inr ?t"
    using a by (auto simp: attempt_body_def)
  show "generate_gemini_response call2 R2 d =
        \<lparr>response_text = ?t, sleeps = map (\<lambda>attempt. d * 2 ^ attempt) [0..<k], calls = Suc k\<rparr>"
    using retry_loop_returns [of k call2 msg2 R2 ?t 0 d] a b
    by (simp add: generate_gemini_response_def)
qed

theorem request_error_capture_witness:
  "0 < retry_attempts \<and> always_raises 0 = Raises ''503 unavailable'' \<and>
   generate_gemini_response always_raises retry_attempts retry_delay =
     \<lparr>response_text = ''Error: After 3 attempts - 503 unavailable'', sleeps = [5, 10], calls = 3\<rparr> \<and>
   1 < retry_attempts \<and> blocked_second 0 = Raises ''503 unavailable'' \<and>
   generate_gemini_response blocked_second retry_attempts retry_delay =
     \<lparr>response_text = ''Error: No content in response (Finish reason: SAFETY, Safety: [HARM])'',
      sleeps = [5], calls = 2\<rparr>"
proof -
  let ?cs = "[\<lparr>parts = [], finish_reason = ''SAFETY'', safety_ratings = ''[HARM]''\<rparr>]"
  have h1: "0 < retry_attempts \<and> (\<forall>i<retry_attempts. always_raises i = Raises ''503 unavailable'')"
    by (simp add: retry_attempts_def always_raises_def)
  have h2: "1 < retry_attempts \<and> (\<forall>i<1. blocked_second i = Raises ''503 unavailable'') \<and>
    blocked_second 1 = Responds ?cs \<and> (?cs = [] \<or> parts (hd ?cs) = [])"
    by (simp add: retry_attempts_def blocked_second_def)
  note t = request_error_capture [where ?R1.0 = retry_attempts and ?call1.0 = always_raises
     and ?msg1.0 = "\<lambda>i. ''503 unavailable''" and d = retry_delay and k = 1
     and ?R2.0 = retry_attempts and ?call2.0 = blocked_second
     and ?msg2.0 = "\<lambda>i. ''503 unavailable''" and cs = ?cs]
  have e1: "py_str (int retry_attempts) = ''3''" by code_simp
  have e2: "map (\<lambda>attempt. retry_delay * 2 ^ attempt) [0..<retry_attempts - 1] = [5, 10]"
    by code_simp
  have e3: "map (\<lambda>attempt. retry_delay * 2 ^ attempt) [0..<1] = [5]"
    by code_simp
  have r1: "generate_gemini_response always_raises retry_attempts retry_delay =
     \<lparr>response_text = ''Error: After '' @ py_str (int retry_attempts) @ '' attempts - '' @ ''503 unavailable'',
         sleeps = map (\<lambda>attempt. retry_delay * 2 ^ attempt) [0..<retry_attempts - 1],
         calls = retry_attempts\<rparr>"
    using t h1 by blast
  have r2: "generate_gemini_response blocked_second retry_attempts retry_delay =
        \<lparr>response_text =
           ''Error: No content in response (Finish reason: '' @
           (if ?cs = [] then ''UNKNOWN'' else finish_reason (hd ?cs)) @ '', Safety: '' @
           (if ?cs = [] then ''[]'' else safety_ratings (hd ?cs)) @ '')'',
         sleeps = map (\<lambda>attempt. retry_delay * 2 ^ attempt) [0..<1], calls = Suc 1\<rparr>"
    using t h2 by blast
  show ?thesis
    using h1 h2 r1 r2 unfolding e1 e2 e3 by (simp add: retry_attempts_def)
qed

section \<open>Saving a checkpoint in place\<close>

lemma foldl_writes: "foldl apply_file_op content (map Write ps) = content @ concat ps"
  by (induction ps arbitrary: content) auto

text \<open>
  Claim C4, as the code has it. A save that completes leaves the encoding of the whole
  new mapping in the file, whatever the file held before. A save that is cut short
  leaves the old content only if nothing was done yet; once the file is opened it holds
  the pieces written so far, a prefix of the new encoding, and nothing of the old
  content.
\<close>

theorem checkpoint_save_in_place:
  "save_checkpoint res old = concat (json_pieces res) \<and>
   save_checkpoint_crash 0 res old = old \<and>
   (0 < n \<longrightarrow> save_checkpoint_crash n res old = concat (take (n - 1) (json_pieces res))) \<and>
   (length (json_pieces res) < n \<longrightarrow> save_checkpoint_crash n res old = save_checkpoint res old)"
proof (intro conjI impI)
  show "save_checkpoint res old = concat (json_pieces res)"
    by (simp add: save_checkpoint_def save_checkpoint_ops_def foldl_writes)
  show "save_checkpoint_crash 0 res old = old"
    by (simp add: save_checkpoint_crash_def)
next
  assume "0 < n"
  then obtain m where n: "n = Suc m" by (cases n) auto
  show "save_checkpoint_crash n res old = concat (take (n - 1) (json_pieces res))"
    by (simp add: n save_checkpoint_crash_def save_checkpoint_ops_def take_map foldl_writes)
next
  assume "length (json_pieces res) < n"
  then show "save_checkpoint_crash n res old = save_checkpoint res old"
    by (simp add: save_checkpoint_crash_def save_checkpoint_def save_checkpoint_ops_def)
qed

theorem checkpoint_save_in_place_witness:
  "0 < (4::nat) \<and>
   save_checkpoint_crash 4 [(''1'', ''a''), (''2'', ''b'')] (save_checkpoint [(''1'', ''a'')] [])
     = CHR ''{'' # CHR 0x0A # ''    '' @ [CHR 0x22, CHR ''1'', CHR 0x22] \<and>
   length (json_pieces [(''1'', ''a''), (''2'', ''b'')]) < 12 \<and>
   save_checkpoint_crash 12 [(''1'', ''a''), (''2'', ''b'')] (save_checkpoint [(''1'', ''a'')] [])
     = save_checkpoint [(''1'', ''a''), (''2'', ''b'')] (save_checkpoint [(''1'', ''a'')] [])"
proof -
  let ?new = "[(''1'', ''a''), (''2'', ''b'')]"
  let ?old = "save_checkpoint [(''1'', ''a'')] []"
  have h1: "0 < (4::nat)" by simp
  have h2: "length (json_pieces ?new) < 12" by code_simp
  have e: "concat (take (4 - 1) (json_pieces ?new))
           = CHR ''{'' # CHR 0x0A # ''    '' @ [CHR 0x22, CHR ''1'', CHR 0x22]" by code_simp
  have r1: "save_checkpoint_crash 4 ?new ?old = concat (take (4 - 1) (json_pieces ?new))"
    using checkpoint_save_in_place [of ?new ?old 4] h1 by blast
  have r2: "save_checkpoint_crash 12 ?new ?old = save_checkpoint ?new ?old"
    using checkpoint_save_in_place [of ?new ?old 12] h2 by blast
  show ?thesis using h1 h2 r1 r2 unfolding e by blast
qed

text \<open>
  A checkpoint with one entry is being replaced by one with two. A crash right after
  the file is opened leaves an empty file; a crash three pieces later leaves a file that
  is neither the old checkpoint nor the new one.
\<close>

theorem checkpoint_crash_counterexample:
  "save_checkpoint [(''1'', ''a'')] [] \<noteq> [] \<and>
   save_checkpoint_crash 1 [(''1'', ''a''), (''2'', ''b'')] (save_checkpoint [(''1'', ''a'')] []) = [] \<and>
   save_checkpoint_crash 4 [(''1'', ''a''), (''2'', ''b'')] (save_checkpoint [(''1'', ''a'')] [])
     \<noteq> save_checkpoint [(''1'', ''a'')] [] \<and>
   save_checkpoint_crash 4 [(''1'', ''a''), (''2'', ''b'')] (save_checkpoint [(''1'', ''a'')] [])
     \<noteq> save_checkpoint [(''1'', ''a''), (''2'', ''b'')] (save_checkpoint [(''1'', ''a'')] [])"
  by code_simp

section \<open>Invariants of a run\<close>

lemma dict_set_keys: "set (dict_keys (dict_set d k v)) = insert k (set (dict_keys d))"
  using dom_update [of k v d] by (auto simp: dict_set_def dict_keys_def)

lemma dict_set_map_of: "map_of (dict_set d k v) = (map_of d)(k \<mapsto> v)"
  by (simp add: dict_set_def update_conv')

lemma dict_update_keys: "set (dict_keys (dict_update d e)) = set (dict_keys d) \<union> set (dict_keys e)"
proof (induction e rule: rev_induct)
  case Nil
  show ?case by (simp add: dict_update_def dict_keys_def)
next
  case (snoc kv e)
  then show ?case by (auto simp: dict_update_snoc dict_set_keys) (auto simp: dict_keys_def)
qed

lemma dict_update_map_of_other:
  "k \<notin> set (dict_keys e) \<Longrightarrow> map_of (dict_update d e) k = map_of d k"
proof (induction e rule: rev_induct)
  case Nil
  show ?case by (simp add: dict_update_def)
next
  case (snoc kv e)
  then show ?case by (auto simp: dict_update_snoc dict_set_map_of dict_keys_def)
qed

lemma dict_update_distinct:
  "distinct (map fst d) \<Longrightarrow> distinct (map fst (dict_update d e))"
proof (induction e rule: rev_induct)
  case Nil
  then show ?case by (simp add: dict_update_def)
next
  case (snoc kv e)
  then show ?case by (simp add: dict_update_snoc dict_set_keys_distinct)
qed

lemma dict_update_append: "dict_update (dict_update d e1) e2 = dict_update d (e1 @ e2)"
  by (simp add: dict_update_def)

lemma dict_of_keys_distinct: "distinct (map fst (dict_of pairs))"
  using dict_update_distinct [of "[]" pairs] by (simp add: dict_of_def)

lemma load_checkpoint_distinct: "distinct (map fst (load_checkpoint f))"
  by (cases f) (simp_all add: load_checkpoint_def dict_of_keys_distinct)

lemma dict_of_load_checkpoint: "dict_of (load_checkpoint f) = load_checkpoint f"
  by (rule dict_of_distinct) (rule load_checkpoint_distinct)

lemma sorted_results_map_of:
  assumes "distinct (map fst d)" "sorted_results d = Inr r"
  shows "map_of r = map_of d" and "set (dict_keys r) = set (dict_keys d)"
proof -
  have r: "r = sort_key key_int d"
    using assms dict_of_distinct [OF distinct_map_fst_sort_key [OF assms(1)], of key_int]
    by (auto simp: sorted_results_def split: if_splits)
  have "distinct (map fst r)" unfolding r using assms(1) by (rule distinct_map_fst_sort_key)
  moreover have "set r = set d" unfolding r by simp
  ultimately show "map_of r = map_of d"
    using assms(1) by (simp add: map_of_inject_set)
  show "set (dict_keys r) = set (dict_keys d)" unfolding r by (simp add: dict_keys_def)
qed

lemma merge_completed_inv:
  assumes "P tr" "\<forall>m \<in> set svs. P m"
    and step: "\<And>m r. P m \<Longrightarrow> r \<in> set done \<Longrightarrow> P (dict_set m (item_key r) (item_text r))"
  shows "P (fst (merge_completed done tr svs)) \<and> (\<forall>m \<in> set (snd (merge_completed done tr svs)). P m)"
  using assms
proof (induction "done" arbitrary: tr svs)
  case Nil
  then show ?case by simp
next
  case (Cons r rest)
  let ?tr = "dict_set tr (item_key r) (item_text r)"
  let ?svs = "if length ?tr mod progress_update_frequency = 0 then svs @ [?tr] else svs"
  have p: "P ?tr" using Cons.prems(1,3) by simp
  have s: "\<forall>m \<in> set ?svs. P m" using Cons.prems(2) p by auto
  have "P (fst (merge_completed rest ?tr ?svs)) \<and> (\<forall>m \<in> set (snd (merge_completed rest ?tr ?svs)). P m)"
    using Cons.prems(3) by (intro Cons.IH [OF p s]) simp
  then show ?case by (simp add: Let_def)
qed

lemma process_single_item_key:
  "get_image_id_from_path (image_path it) = Some i \<Longrightarrow>
   item_key (process_single_item_gemini env t it) = py_str i"
  by (simp add: process_single_item_gemini_def Let_def split: option.splits prod.splits)

lemma remaining_items_key:
  assumes "it \<in> set (remaining_items tr items)"
  shows "\<exists>i. get_image_id_from_path (image_path it) = Some i \<and> 0 \<le> i \<and>
             py_str i \<notin> set (dict_keys tr)"
proof -
  from assms obtain i where i: "get_image_id_from_path (image_path it) = Some i"
    and n: "py_str i \<notin> set (dict_keys tr)"
    by (auto simp: remaining_items_def split: option.splits)
  have "0 \<le> i" using i by (rule get_image_id_from_path_nonneg)
  then show ?thesis using i n by auto
qed

lemma finalizer_order_lemma:
  "list_all (\<lambda>kv. py_int (fst kv) \<noteq> None) d \<Longrightarrow> distinct (map fst d) \<Longrightarrow>
   sorted_results d = Inr (sort_key key_int d)"
  using dict_of_distinct [OF distinct_map_fst_sort_key, of d key_int]
  by (simp add: sorted_results_def)

lemma update_values: "kv \<in> set (AList.update k v al) \<Longrightarrow> kv = (k, v) \<or> kv \<in> set al"
  by (induction al) (auto split: if_splits)

lemma prepare_image_only_step_ids:
  assumes "\<forall>kv \<in> set (snd acc). P (info_id (snd kv))"
    and "\<And>i. get_image_id (basename p) = Inr i \<Longrightarrow> P i"
  shows "\<forall>kv \<in> set (snd (prepare_image_only_step env acc p)). P (info_id (snd kv))"
proof (cases "get_image_id (basename p)")
  case (Inl e)
  then show ?thesis using assms(1) by (cases e) (simp add: prepare_image_only_step_def)
next
  case (Inr i)
  let ?cid = "''img_'' @ py_str i @ ''_'' @ py_str (time_ms env p)"
  let ?m = "AList.update ?cid \<lparr>info_path = p, info_id = i\<rparr> (snd acc)"
  have m: "\<forall>kv \<in> set ?m. P (info_id (snd kv))"
    using assms(1) assms(2) [OF Inr] by (auto dest!: update_values)
  have "snd (prepare_image_only_step env acc p) = ?m"
    using Inr by (simp add: prepare_image_only_step_def Let_def split: option.splits)
  then show ?thesis using m by simp
qed

lemma prepare_image_text_step_ids:
  assumes "\<forall>kv \<in> set (snd acc). P (info_id (snd kv))"
    and "\<And>i. get_image_id (basename (fst pr)) = Inr i \<Longrightarrow> P i"
  shows "\<forall>kv \<in> set (snd (prepare_image_text_step env acc pr)). P (info_id (snd kv))"
proof (cases "get_image_id (basename (fst pr))")
  case (Inl e)
  then show ?thesis using assms(1) by (cases e) (simp add: prepare_image_text_step_def)
next
  case (Inr i)
  let ?cid = "''pair_'' @ py_str i @ ''_'' @ py_str (time_ms env (fst pr))"
  let ?m = "AList.update ?cid \<lparr>info_path = fst pr, info_id = i\<rparr> (snd acc)"
  have m: "\<forall>kv \<in> set ?m. P (info_id (snd kv))"
    using assms(1) assms(2) [OF Inr] by (auto dest!: update_values)
  have "snd (prepare_image_text_step env acc pr) = ?m"
    using Inr by (simp add: prepare_image_text_step_def Let_def split: option.splits)
  then show ?thesis using m by simp
qed

lemma foldl_image_only_ids:
  assumes "\<forall>kv \<in> set (snd acc). P (info_id (snd kv))"
    and "\<And>p i. p \<in> set paths \<Longrightarrow> get_image_id (basename p) = Inr i \<Longrightarrow> P i"
  shows "\<forall>kv \<in> set (snd (foldl (prepare_image_only_step env) acc paths)). P (info_id (snd kv))"
  using assms
proof (induction paths arbitrary: acc)
  case Nil
  then show ?case by simp
next
  case (Cons p paths)
  have a: "\<forall>kv \<in> set (snd (prepare_image_only_step env acc p)). P (info_id (snd kv))"
  proof (rule prepare_image_only_step_ids [OF Cons.prems(1)])
    fix i assume "get_image_id (basename p) = Inr i"
    then show "P i" using Cons.prems(2) [of p i] by simp
  qed
  have b: "\<And>q i. q \<in> set paths \<Longrightarrow> get_image_id (basename q) = Inr i \<Longrightarrow> P i"
    using Cons.prems(2) by (meson list.set_intros(2))
  show ?case using Cons.IH [OF a b] by simp
qed

lemma foldl_image_text_ids:
  assumes "\<forall>kv \<in> set (snd acc). P (info_id (snd kv))"
    and "\<And>pr i. pr \<in> set pairs \<Longrightarrow> get_image_id (basename (fst pr)) = Inr i \<Longrightarrow> P i"
  shows "\<forall>kv \<in> set (snd (foldl (prepare_image_text_step env) acc pairs)). P (info_id (snd kv))"
  using assms
proof (induction pairs arbitrary: acc)
  case Nil
  then show ?case by simp
next
  case (Cons p pairs)
  have a: "\<forall>kv \<in> set (snd (prepare_image_text_step env acc p)). P (info_id (snd kv))"
  proof (rule prepare_image_text_step_ids [OF Cons.prems(1)])
    fix i assume "get_image_id (basename (fst p)) = Inr i"
    then show "P i" using Cons.prems(2) [of p i] by simp
  qed
  have b: "\<And>q i. q \<in> set pairs \<Longrightarrow> get_image_id (basename (fst q)) = Inr i \<Longrightarrow> P i"
    using Cons.prems(2) by (meson list.set_intros(2))
  show ?case using Cons.IH [OF a b] by simp
qed

lemma prepare_batch_file_image_only_ids:
  assumes "\<And>p i. p \<in> set paths \<Longrightarrow> get_image_id (basename p) = Inr i \<Longrightarrow> P i"
  shows "\<forall>kv \<in> set (snd (prepare_batch_file_image_only env paths)). P (info_id (snd kv))"
  using foldl_image_only_ids [of "([], [])" P paths env] assms
  by (simp add: prepare_batch_file_image_only_def Let_def)

lemma prepare_batch_file_image_text_ids:
  assumes "\<And>pr i. pr \<in> set pairs \<Longrightarrow> get_image_id (basename (fst pr)) = Inr i \<Longrightarrow> P i"
  shows "\<forall>kv \<in> set (snd (prepare_batch_file_image_text env pairs)). P (info_id (snd kv))"
  using foldl_image_text_ids [of "([], [])" P pairs env] assms
  by (simp add: prepare_batch_file_image_text_def Let_def)

lemma process_result_line_keys:
  assumes "\<forall>k \<in> set (dict_keys res). Q k"
    and "\<forall>kv \<in> set idm. Q (py_str (info_id (snd kv)))"
  shows "\<forall>k \<in> set (dict_keys (process_result_line idm res line)). Q k"
proof (cases line)
  case Unreadable
  then show ?thesis using assms(1) by (simp add: process_result_line_def)
next
  case (Decoded obj)
  show ?thesis
  proof (cases "line_custom_id obj")
    case None
    then show ?thesis using Decoded assms(1) by (simp add: process_result_line_def)
  next
    case (Some cid)
    show ?thesis
    proof (cases "map_of idm cid")
      case None
      then show ?thesis using Decoded Some assms(1) by (simp add: process_result_line_def)
    next
      case (Some info)
      then have "(cid, info) \<in> set idm" by (rule map_of_SomeD)
      then have "Q (py_str (info_id info))" using assms(2) by force
      then show ?thesis
        using Decoded \<open>line_custom_id obj = Some cid\<close> Some assms(1)
        by (simp add: process_result_line_def Let_def dict_set_keys)
    qed
  qed
qed

lemma process_batch_results_keys:
  assumes "\<forall>kv \<in> set idm. Q (py_str (info_id (snd kv)))"
  shows "\<forall>k \<in> set (dict_keys (process_batch_results rem out idm)). Q k"
proof -
  have f: "\<And>res. \<forall>k \<in> set (dict_keys res). Q k \<Longrightarrow>
      \<forall>k \<in> set (dict_keys (foldl (process_result_line idm) res lines)). Q k" for lines
  proof (induction lines)
    case Nil
    then show ?case by simp
  next
    case (Cons l lines)
    show ?case
      using Cons.IH [OF process_result_line_keys [OF Cons.prems assms, of l]] by simp
  qed
  show ?thesis
  proof (cases out)
    case None
    then show ?thesis by (simp add: process_batch_results_def dict_keys_def)
  next
    case (Some fid)
    show ?thesis
    proof (cases "fid = [] \<or> file_content rem fid = None")
      case True
      then show ?thesis using Some by (auto simp: process_batch_results_def dict_keys_def)
    next
      case False
      then obtain lines where l: "file_content rem fid = Some lines" by auto
      have "process_batch_results rem out idm = foldl (process_result_line idm) [] lines"
        using Some False l by (simp add: process_batch_results_def)
      moreover have "\<forall>k \<in> set (dict_keys (foldl (process_result_line idm) [] lines)). Q k"
        by (rule f) (simp add: dict_keys_def)
      ultimately show ?thesis by simp
    qed
  qed
qed

lemma job_failed_no_output: "job_failed rem fid r \<Longrightarrow> job_output rem fid r = None"
  by (auto simp: job_failed_def job_output_def split: option.splits)

lemma retry_chunk_unfold:
  "retry_chunk rem fid idm r st =
     (if r \<le> max_retries
      then (case job_output rem fid r of
              None \<Rightarrow> retry_chunk rem fid idm (r + 1) (st\<lparr>submissions := submissions st @ [fid]\<rparr>)
            | Some out_id \<Rightarrow>
                st\<lparr>submissions := submissions st @ [fid],
                   task_results := dict_update (task_results st)
                                     (process_batch_results rem (Some out_id) idm),
                   saves := saves st @ [dict_update (task_results st)
                                          (process_batch_results rem (Some out_id) idm)],
                   batch_succeeded := True\<rparr>)
      else st)"
  by (subst retry_chunk.simps) (simp add: job_output_def Let_def split: option.splits)

lemma retry_chunk_result:
  "uploads (retry_chunk rem fid idm r st) = uploads st \<and>
   (\<exists>n. submissions (retry_chunk rem fid idm r st) = submissions st @ replicate n fid \<and>
        n \<le> Suc max_retries - r) \<and>
   ((task_results (retry_chunk rem fid idm r st) = task_results st \<and>
     saves (retry_chunk rem fid idm r st) = saves st \<and>
     batch_succeeded (retry_chunk rem fid idm r st) = batch_succeeded st) \<or>
    (\<exists>out. task_results (retry_chunk rem fid idm r st) =
             dict_update (task_results st) (process_batch_results rem (Some out) idm) \<and>
           saves (retry_chunk rem fid idm r st) =
             saves st @ [task_results (retry_chunk rem fid idm r st)] \<and>
           batch_succeeded (retry_chunk rem fid idm r st)))"
proof (induction "Suc max_retries - r" arbitrary: r st)
  case 0
  then have "\<not> r \<le> max_retries" by simp
  then have "retry_chunk rem fid idm r st = st" by (subst retry_chunk_unfold) simp
  then show ?case by simp
next
  case (Suc m)
  then have le: "r \<le> max_retries" by simp
  let ?st1 = "st\<lparr>submissions := submissions st @ [fid]\<rparr>"
  show ?case
  proof (cases "job_output rem fid r")
    case None
    have e: "retry_chunk rem fid idm r st = retry_chunk rem fid idm (r + 1) ?st1"
      using le None by (subst retry_chunk_unfold) simp
    have m: "m = Suc max_retries - (r + 1)" using Suc.hyps(2) by simp
    note ih = Suc.hyps(1) [OF m, of ?st1]
    from ih obtain n where n: "submissions (retry_chunk rem fid idm (r + 1) ?st1)
        = submissions ?st1 @ replicate n fid" "n \<le> Suc max_retries - (r + 1)" by blast
    have s: "submissions (retry_chunk rem fid idm r st) = submissions st @ replicate (Suc n) fid"
      using n(1) by (simp add: e replicate_app_Cons_same)
    have nn: "Suc n \<le> Suc max_retries - r" using n(2) le by simp
    show ?thesis
      unfolding e using ih s [unfolded e] nn by (auto simp del: replicate_Suc)
  next
    case (Some out)
    have e: "retry_chunk rem fid idm r st =
        st\<lparr>submissions := submissions st @ [fid],
           task_results := dict_update (task_results st) (process_batch_results rem (Some out) idm),
           saves := saves st @ [dict_update (task_results st)
                                  (process_batch_results rem (Some out) idm)],
           batch_succeeded := True\<rparr>"
      using le Some by (subst retry_chunk_unfold) simp
    have "submissions (retry_chunk rem fid idm r st) = submissions st @ replicate 1 fid"
      by (simp add: e)
    moreover have "(1::nat) \<le> Suc max_retries - r" using le by simp
    ultimately show ?thesis
      unfolding e by (intro conjI) (simp, blast, auto)
  qed
qed

lemma retry_chunk_all_failed:
  assumes "\<forall>k. r \<le> k \<and> k \<le> max_retries \<longrightarrow> job_output rem fid k = None"
  shows "retry_chunk rem fid idm r st =
           st\<lparr>submissions := submissions st @ replicate (Suc max_retries - r) fid\<rparr>"
  using assms
proof (induction "Suc max_retries - r" arbitrary: r st)
  case 0
  then have "\<not> r \<le> max_retries" by simp
  then show ?case using 0 by (subst retry_chunk_unfold) simp
next
  case (Suc m)
  then have le: "r \<le> max_retries" by simp
  let ?st1 = "st\<lparr>submissions := submissions st @ [fid]\<rparr>"
  have none: "job_output rem fid r = None" using Suc.prems le by simp
  have e: "retry_chunk rem fid idm r st = retry_chunk rem fid idm (r + 1) ?st1"
    using le none by (subst retry_chunk_unfold) simp
  have m: "m = Suc max_retries - (r + 1)" using Suc.hyps(2) by simp
  have a: "\<forall>k. r + 1 \<le> k \<and> k \<le> max_retries \<longrightarrow> job_output rem fid k = None"
    using Suc.prems by simp
  have d: "Suc max_retries - r = Suc (Suc max_retries - (r + 1))" using le by simp
  show ?case
    unfolding e Suc.hyps(1) [OF m a] d by (simp add: replicate_app_Cons_same)
qed

lemma is_decimal_key_py_str: "0 \<le> i \<Longrightarrow> is_decimal_key (py_str i)"
  by (simp add: is_decimal_key_def py_int_py_str)

lemma is_decimal_key_parses: "is_decimal_key k \<Longrightarrow> py_int k \<noteq> None"
  by (auto simp: is_decimal_key_def split: option.splits)

lemma get_remaining_images_key:
  "p \<in> set (get_remaining_images imgs ks) \<Longrightarrow>
   \<exists>i. get_image_id (basename p) = Inr i \<and> 0 \<le> i \<and> py_str i \<notin> set ks"
  by (auto simp: get_remaining_images_def split: sum.splits error.splits dest: get_image_id_nonneg)

lemma get_remaining_image_text_pairs_key:
  "pr \<in> set (get_remaining_image_text_pairs pairs ks) \<Longrightarrow>
   \<exists>i. get_image_id (basename (fst pr)) = Inr i \<and> 0 \<le> i \<and> py_str i \<notin> set ks"
  by (auto simp: get_remaining_image_text_pairs_def split: sum.splits error.splits dest: get_image_id_nonneg)

lemma chunks_subset: "c \<in> set (chunks n items) \<Longrightarrow> set c \<subseteq> set items"
  by (auto simp: chunks_def dest!: in_set_takeD in_set_dropD)

lemma process_chunk_inv:
  assumes closed: "\<And>m e. P m \<Longrightarrow> \<forall>k \<in> set (dict_keys e). Q k \<Longrightarrow> P (dict_update m e)"
    and st: "P (task_results st)" "\<forall>m \<in> set (saves st). P m"
    and ids: "\<forall>kv \<in> set (snd prepared). Q (py_str (info_id (snd kv)))"
  shows "P (task_results (process_chunk rem st prepared)) \<and>
         (\<forall>m \<in> set (saves (process_chunk rem st prepared)). P m)"
proof (cases "\<exists>lines fid. fst prepared = Some lines \<and> snd prepared \<noteq> [] \<and>
                upload_batch_file rem lines = Some fid \<and> fid \<noteq> []")
  case False
  then have "process_chunk rem st prepared = st"
    by (auto simp: process_chunk_def split: option.splits)
  then show ?thesis using st by simp
next
  case True
  then obtain lines fid where p: "fst prepared = Some lines" "snd prepared \<noteq> []"
    "upload_batch_file rem lines = Some fid" "fid \<noteq> []" by blast
  let ?st1 = "st\<lparr>uploads := uploads st @ [(fid, lines)], batch_succeeded := False\<rparr>"
  let ?st' = "retry_chunk rem fid (snd prepared) 0 ?st1"
  have e: "process_chunk rem st prepared = ?st'"
    using p by (simp add: process_chunk_def)
  have k: "\<And>out. \<forall>k \<in> set (dict_keys (process_batch_results rem (Some out) (snd prepared))). Q k"
    using ids by (rule process_batch_results_keys)
  from retry_chunk_result [of rem fid "snd prepared" 0 ?st1]
  have "(task_results ?st' = task_results ?st1 \<and> saves ?st' = saves ?st1) \<or>
    (\<exists>out. task_results ?st' =
             dict_update (task_results ?st1) (process_batch_results rem (Some out) (snd prepared)) \<and>
           saves ?st' = saves ?st1 @ [task_results ?st'])"
    by blast
  then show ?thesis
  proof
    assume "task_results ?st' = task_results ?st1 \<and> saves ?st' = saves ?st1"
    then show ?thesis using st by (simp add: e)
  next
    assume "\<exists>out. task_results ?st' =
             dict_update (task_results ?st1) (process_batch_results rem (Some out) (snd prepared)) \<and>
           saves ?st' = saves ?st1 @ [task_results ?st']"
    then obtain out where o: "task_results ?st' =
             dict_update (task_results st) (process_batch_results rem (Some out) (snd prepared))"
           "saves ?st' = saves st @ [task_results ?st']" by auto
    have "P (task_results ?st')" unfolding o(1) using st(1) k by (rule closed)
    then show ?thesis using st(2) o(2) by (simp add: e)
  qed
qed

lemma foldl_process_chunk_inv:
  assumes closed: "\<And>m e. P m \<Longrightarrow> \<forall>k \<in> set (dict_keys e). Q k \<Longrightarrow> P (dict_update m e)"
    and st: "P (task_results st)" "\<forall>m \<in> set (saves st). P m"
    and ids: "\<forall>prepared \<in> set ps. \<forall>kv \<in> set (snd prepared). Q (py_str (info_id (snd kv)))"
  shows "P (task_results (foldl (process_chunk rem) st ps)) \<and>
         (\<forall>m \<in> set (saves (foldl (process_chunk rem) st ps)). P m)"
  using st ids
proof (induction ps arbitrary: st)
  case Nil
  then show ?case by simp
next
  case (Cons p ps)
  have "P (task_results (process_chunk rem st p)) \<and>
         (\<forall>m \<in> set (saves (process_chunk rem st p)). P m)"
    using Cons.prems by (intro process_chunk_inv [where Q = Q] closed) auto
  then show ?case using Cons.IH [of "process_chunk rem st p"] Cons.prems(3) by simp
qed

lemma batch_prepared_ids:
  assumes "prepared \<in> set (if 6 \<le> t
             then map (prepare_batch_file_image_text env)
                    (chunks batch_size (get_remaining_image_text_pairs pairs ks))
             else map (prepare_batch_file_image_only env)
                    (chunks batch_size (get_remaining_images imgs ks)))"
  shows "\<forall>kv \<in> set (snd prepared).
           py_str (info_id (snd kv)) \<notin> set ks \<and> is_decimal_key (py_str (info_id (snd kv)))"
proof (cases "6 \<le> t")
  case True
  then obtain c where c: "c \<in> set (chunks batch_size (get_remaining_image_text_pairs pairs ks))"
    and p: "prepared = prepare_batch_file_image_text env c"
    using assms by auto
  show ?thesis
    unfolding p
  proof (rule prepare_batch_file_image_text_ids)
    fix pr i assume "pr \<in> set c" and i: "get_image_id (basename (fst pr)) = Inr i"
    then have "pr \<in> set (get_remaining_image_text_pairs pairs ks)"
      using chunks_subset [OF c] by auto
    from get_remaining_image_text_pairs_key [OF this] i
    show "py_str i \<notin> set ks \<and> is_decimal_key (py_str i)"
      by (auto intro: is_decimal_key_py_str)
  qed
next
  case False
  then obtain c where c: "c \<in> set (chunks batch_size (get_remaining_images imgs ks))"
    and p: "prepared = prepare_batch_file_image_only env c"
    using assms by auto
  show ?thesis
    unfolding p
  proof (rule prepare_batch_file_image_only_ids)
    fix q i assume "q \<in> set c" and i: "get_image_id (basename q) = Inr i"
    then have "q \<in> set (get_remaining_images imgs ks)"
      using chunks_subset [OF c] by auto
    from get_remaining_images_key [OF this] i
    show "py_str i \<notin> set ks \<and> is_decimal_key (py_str i)"
      by (auto intro: is_decimal_key_py_str)
  qed
qed

lemma batch_run_inv:
  assumes closed: "\<And>m e. P m \<Longrightarrow>
      \<forall>k \<in> set (dict_keys e). k \<notin> set (dict_keys (load_checkpoint ckpt)) \<and> is_decimal_key k \<Longrightarrow>
      P (dict_update m e)"
    and init: "P (load_checkpoint ckpt)"
  shows "\<exists>m. P m \<and> distinct (map fst m) \<and>
     (batch_returned (process_task_for_language_batch env rem t imgs pairs ckpt) = Inr m \<or>
      batch_returned (process_task_for_language_batch env rem t imgs pairs ckpt) = sorted_results m) \<and>
     (\<forall>s \<in> set (batch_saves (process_task_for_language_batch env rem t imgs pairs ckpt)). P s)"
proof -
  let ?loaded = "load_checkpoint ckpt"
  let ?ks = "dict_keys ?loaded"
  let ?prepared = "if 6 \<le> t
             then map (prepare_batch_file_image_text env)
                    (chunks batch_size (get_remaining_image_text_pairs pairs ?ks))
             else map (prepare_batch_file_image_only env)
                    (chunks batch_size (get_remaining_images imgs ?ks))"
  let ?init = "\<lparr>task_results = ?loaded, saves = [], uploads = [], submissions = [],
                 batch_succeeded = False\<rparr>"
  let ?fin = "foldl (process_chunk rem) ?init ?prepared"
  let ?P = "\<lambda>m. P m \<and> distinct (map fst m)"
  let ?Q = "\<lambda>k. k \<notin> set ?ks \<and> is_decimal_key k"
  have c: "\<And>m e. ?P m \<Longrightarrow> \<forall>k \<in> set (dict_keys e). ?Q k \<Longrightarrow> ?P (dict_update m e)"
    using closed by (simp add: dict_update_distinct)
  have i1: "?P (task_results ?init)" using init by (simp add: load_checkpoint_distinct)
  have i2: "\<forall>m \<in> set (saves ?init). ?P m" by simp
  have i3: "\<forall>prepared \<in> set ?prepared. \<forall>kv \<in> set (snd prepared). ?Q (py_str (info_id (snd kv)))"
    using batch_prepared_ids [of _ t env pairs ?ks imgs] by blast
  have inv: "?P (task_results ?fin) \<and> (\<forall>m \<in> set (saves ?fin). ?P m)"
    using foldl_process_chunk_inv [where P = ?P and Q = ?Q and st = ?init and ps = ?prepared
        and rem = rem, OF c i1 i2 i3] .
  let ?run = "process_task_for_language_batch env rem t imgs pairs ckpt"
  let ?nl = "if 6 \<le> t then get_remaining_image_text_pairs pairs ?ks = []
             else get_remaining_images imgs ?ks = []"
  have shape: "?run =
      (if ?nl
       then \<lparr>batch_returned = Inr ?loaded, batch_saves = [], batch_uploads = [],
             batch_submissions = []\<rparr>
       else \<lparr>batch_returned = sorted_results (task_results ?fin), batch_saves = saves ?fin,
             batch_uploads = uploads ?fin, batch_submissions = submissions ?fin\<rparr>)"
    unfolding process_task_for_language_batch_def Let_def dict_of_load_checkpoint by (rule refl)
  show ?thesis
  proof (cases ?nl)
    case True
    have "?run = \<lparr>batch_returned = Inr ?loaded, batch_saves = [], batch_uploads = [],
             batch_submissions = []\<rparr>"
      unfolding shape using True by (rule if_P)
    then have "batch_returned ?run = Inr ?loaded \<and> batch_saves ?run = []"
      by simp
    then show ?thesis using init load_checkpoint_distinct [of ckpt] by auto
  next
    case False
    have "?run = \<lparr>batch_returned = sorted_results (task_results ?fin), batch_saves = saves ?fin,
             batch_uploads = uploads ?fin, batch_submissions = submissions ?fin\<rparr>"
      unfolding shape using False by (rule if_not_P)
    then have "batch_returned ?run = sorted_results (task_results ?fin) \<and> batch_saves ?run = saves ?fin"
      by simp
    then show ?thesis using inv by auto
  qed
qed

lemma direct_run_inv:
  assumes closed: "\<And>m k v. P m \<Longrightarrow>
      k \<notin> set (dict_keys (load_checkpoint ckpt)) \<and> is_decimal_key k \<Longrightarrow> P (dict_set m k v)"
    and init: "P (load_checkpoint ckpt)"
    and sched: "\<forall>xs. set (as_completed xs) \<subseteq> set xs"
  shows "\<exists>m. P m \<and> distinct (map fst m) \<and>
     (returned (run_task_for_language_gemini env as_completed t ios its ckpt) = Inr m \<or>
      returned (run_task_for_language_gemini env as_completed t ios its ckpt) = sorted_results m) \<and>
     (\<forall>s \<in> set (checkpoint_saves (run_task_for_language_gemini env as_completed t ios its ckpt)). P s)"
proof -
  let ?loaded = "load_checkpoint ckpt"
  let ?items = "if 6 \<le> t then its else ios"
  let ?rem = "remaining_items ?loaded ?items"
  let ?done = "map (process_single_item_gemini env t) (as_completed ?rem)"
  let ?merged = "merge_completed ?done ?loaded []"
  let ?P = "\<lambda>m. P m \<and> distinct (map fst m)"
  let ?run = "run_task_for_language_gemini env as_completed t ios its ckpt"
  have i1: "?P ?loaded" using init by (simp add: load_checkpoint_distinct)
  have i2: "\<forall>m \<in> set []. ?P m" by simp
  have i3: "\<And>m r. ?P m \<Longrightarrow> r \<in> set ?done \<Longrightarrow> ?P (dict_set m (item_key r) (item_text r))"
  proof -
    fix m r assume m: "?P m" and r: "r \<in> set ?done"
    then obtain it where it: "it \<in> set ?rem" and re: "r = process_single_item_gemini env t it"
      using sched by auto
    from remaining_items_key [OF it] obtain i where
      i: "get_image_id_from_path (image_path it) = Some i" "0 \<le> i"
         "py_str i \<notin> set (dict_keys ?loaded)" by blast
    have "item_key r = py_str i" unfolding re using i(1) by (rule process_single_item_key)
    then show "?P (dict_set m (item_key r) (item_text r))"
      using m i closed [of m "py_str i" "item_text r"]
      by (simp add: is_decimal_key_py_str dict_set_keys_distinct)
  qed
  have inv: "?P (fst ?merged) \<and> (\<forall>m \<in> set (snd ?merged). ?P m)"
    using merge_completed_inv [where P = ?P and tr = ?loaded and svs = "[]" and ?done = ?done,
        OF i1 i2 i3] .
  have shape: "?run =
      (if ?rem = []
       then \<lparr>returned = Inr ?loaded, checkpoint_saves = [], model_requests = 0\<rparr>
       else \<lparr>returned = sorted_results (fst ?merged),
             checkpoint_saves = snd ?merged @ [fst ?merged],
             model_requests = sum_list (map item_calls ?done)\<rparr>)"
    unfolding run_task_for_language_gemini_def Let_def dict_of_load_checkpoint by (rule refl)
  show ?thesis
  proof (cases "?rem = []")
    case True
    have "?run = \<lparr>returned = Inr ?loaded, checkpoint_saves = [], model_requests = 0\<rparr>"
      unfolding shape using True by (rule if_P)
    then have "returned ?run = Inr ?loaded \<and> checkpoint_saves ?run = []"
      by simp
    then show ?thesis using init load_checkpoint_distinct [of ckpt] by auto
  next
    case False
    have "?run = \<lparr>returned = sorted_results (fst ?merged),
             checkpoint_saves = snd ?merged @ [fst ?merged],
             model_requests = sum_list (map item_calls ?done)\<rparr>"
      unfolding shape using False by (rule if_not_P)
    then have "returned ?run = sorted_results (fst ?merged) \<and>
         checkpoint_saves ?run = snd ?merged @ [fst ?merged]"
      by simp
    then show ?thesis using inv by auto
  qed
qed

lemma map_of_key: "map_of d k = Some v \<Longrightarrow> k \<in> set (dict_keys d)"
  by (auto simp: dict_keys_def dest: map_of_SomeD intro: rev_image_eqI)

lemma returned_map_of:
  assumes "distinct (map fst m)" "map_of m k = Some v" "ret = Inr m \<or> ret = sorted_results m"
    "ret = Inr r"
  shows "map_of r k = Some v"
  using assms sorted_results_map_of(1) [of m r] by auto

lemma sorted_results_decimal:
  assumes "\<forall>k \<in> set (dict_keys m). is_decimal_key k" "distinct (map fst m)"
    "ret = Inr m \<or> ret = sorted_results m"
  shows "\<exists>r. ret = Inr r \<and> list_all is_decimal_key (dict_keys r)"
proof -
  have p: "list_all (\<lambda>kv. py_int (fst kv) \<noteq> None) m"
    using assms(1) by (auto simp: list_all_iff dict_keys_def dest!: is_decimal_key_parses)
  have s: "sorted_results m = Inr (sort_key key_int m)"
    using finalizer_order_lemma p assms(2) by blast
  have k: "list_all is_decimal_key (dict_keys (sort_key key_int m))"
    using assms(1) by (simp add: list_all_iff dict_keys_def)
  have k0: "list_all is_decimal_key (dict_keys m)"
    using assms(1) by (simp add: list_all_iff)
  show ?thesis using assms(3) s k k0 by auto
qed

section \<open>Entries of the loaded checkpoint\<close>

text \<open>
  An entry of the checkpoint loaded at the start of a (language, task) run keeps its
  value in every mapping the run saves and in the mapping it returns, in batch mode
  and, whatever the order in which the requests complete, in direct mode. Both
  dispatchers keep only items whose string ID is absent from the loaded keys, so no
  result is ever stored under a loaded key.
\<close>

lemma loaded_entries_kept:
  "map_of (load_checkpoint ckpt) k = Some v \<longrightarrow>
     (\<forall>m \<in> set (batch_saves (process_task_for_language_batch benv rem t imgs pairs ckpt)).
        map_of m k = Some v) \<and>
     (\<forall>r. batch_returned (process_task_for_language_batch benv rem t imgs pairs ckpt) = Inr r \<longrightarrow>
        map_of r k = Some v) \<and>
     (\<forall>p \<in> set (get_remaining_images imgs (dict_keys (load_checkpoint ckpt))).
        \<forall>i. get_image_id (basename p) = Inr i \<longrightarrow> py_str i \<noteq> k) \<and>
     (\<forall>pr \<in> set (get_remaining_image_text_pairs pairs (dict_keys (load_checkpoint ckpt))).
        \<forall>i. get_image_id (basename (fst pr)) = Inr i \<longrightarrow> py_str i \<noteq> k) \<and>
     (\<forall>it \<in> set (remaining_items (load_checkpoint ckpt) items).
        item_key (process_single_item_gemini env t it) \<noteq> k) \<and>
     ((\<forall>xs. set (as_completed xs) \<subseteq> set xs) \<longrightarrow>
        (\<forall>m \<in> set (checkpoint_saves (run_task_for_language_gemini env as_completed t ios its ckpt)).
           map_of m k = Some v) \<and>
        (\<forall>r. returned (run_task_for_language_gemini env as_completed t ios its ckpt) = Inr r \<longrightarrow>
           map_of r k = Some v))"
proof (intro impI)
  let ?loaded = "load_checkpoint ckpt"
  let ?P = "\<lambda>m. map_of m k = Some v"
  assume init: "?P ?loaded"
  then have kin: "k \<in> set (dict_keys ?loaded)" by (rule map_of_key)
  have c1: "\<And>m e. ?P m \<Longrightarrow>
      \<forall>x \<in> set (dict_keys e). x \<notin> set (dict_keys ?loaded) \<and> is_decimal_key x \<Longrightarrow>
      ?P (dict_update m e)"
  proof -
    fix m e assume m: "?P m"
      and e: "\<forall>x \<in> set (dict_keys e). x \<notin> set (dict_keys ?loaded) \<and> is_decimal_key x"
    have "k \<notin> set (dict_keys e)" using e kin by auto
    then show "?P (dict_update m e)" using m by (simp add: dict_update_map_of_other)
  qed
  have c2: "\<And>m x y. ?P m \<Longrightarrow> x \<notin> set (dict_keys ?loaded) \<and> is_decimal_key x \<Longrightarrow>
      ?P (dict_set m x y)"
    using kin by (auto simp: dict_set_map_of)
  let ?brun = "process_task_for_language_batch benv rem t imgs pairs ckpt"
  from batch_run_inv [where P = ?P, OF c1 init, of benv rem t imgs pairs]
  obtain mb where mb: "?P mb" "distinct (map fst mb)"
    "batch_returned ?brun = Inr mb \<or> batch_returned ?brun = sorted_results mb"
    "\<forall>s \<in> set (batch_saves ?brun). ?P s" by blast
  have b1: "\<forall>m \<in> set (batch_saves ?brun). map_of m k = Some v" using mb(4) .
  have b2: "\<forall>r. batch_returned ?brun = Inr r \<longrightarrow> map_of r k = Some v"
    using returned_map_of [OF mb(2) mb(1) mb(3)] by blast
  have b3: "\<forall>p \<in> set (get_remaining_images imgs (dict_keys ?loaded)).
        \<forall>i. get_image_id (basename p) = Inr i \<longrightarrow> py_str i \<noteq> k"
    using kin by (auto dest!: get_remaining_images_key)
  have b4: "\<forall>pr \<in> set (get_remaining_image_text_pairs pairs (dict_keys ?loaded)).
        \<forall>i. get_image_id (basename (fst pr)) = Inr i \<longrightarrow> py_str i \<noteq> k"
    using kin by (auto dest!: get_remaining_image_text_pairs_key)
  have d0: "\<forall>it \<in> set (remaining_items ?loaded items).
        item_key (process_single_item_gemini env t it) \<noteq> k"
  proof
    fix it assume "it \<in> set (remaining_items ?loaded items)"
    from remaining_items_key [OF this] obtain i where
      i: "get_image_id_from_path (image_path it) = Some i" "py_str i \<notin> set (dict_keys ?loaded)"
      by blast
    show "item_key (process_single_item_gemini env t it) \<noteq> k"
      using process_single_item_key [OF i(1), of env t] i(2) kin by auto
  qed
  have d: "(\<forall>xs. set (as_completed xs) \<subseteq> set xs) \<longrightarrow>
        (\<forall>m \<in> set (checkpoint_saves (run_task_for_language_gemini env as_completed t ios its ckpt)).
           map_of m k = Some v) \<and>
        (\<forall>r. returned (run_task_for_language_gemini env as_completed t ios its ckpt) = Inr r \<longrightarrow>
           map_of r k = Some v)"
  proof
    let ?drun = "run_task_for_language_gemini env as_completed t ios its ckpt"
    assume sched: "\<forall>xs. set (as_completed xs) \<subseteq> set xs"
    from direct_run_inv [where P = ?P, OF c2 init sched, of env t ios its]
    obtain md where md: "?P md" "distinct (map fst md)"
      "returned ?drun = Inr md \<or> returned ?drun = sorted_results md"
      "\<forall>s \<in> set (checkpoint_saves ?drun). ?P s" by blast
    show "(\<forall>m \<in> set (checkpoint_saves ?drun). map_of m k = Some v) \<and>
        (\<forall>r. returned ?drun = Inr r \<longrightarrow> map_of r k = Some v)"
      using md(4) returned_map_of [OF md(2) md(1) md(3)] by blast
  qed
  show "(\<forall>m \<in> set (batch_saves ?brun). map_of m k = Some v) \<and>
     (\<forall>r. batch_returned ?brun = Inr r \<longrightarrow> map_of r k = Some v) \<and>
     (\<forall>p \<in> set (get_remaining_images imgs (dict_keys ?loaded)).
        \<forall>i. get_image_id (basename p) = Inr i \<longrightarrow> py_str i \<noteq> k) \<and>
     (\<forall>pr \<in> set (get_remaining_image_text_pairs pairs (dict_keys ?loaded)).
        \<forall>i. get_image_id (basename (fst pr)) = Inr i \<longrightarrow> py_str i \<noteq> k) \<and>
     (\<forall>it \<in> set (remaining_items ?loaded items).
        item_key (process_single_item_gemini env t it) \<noteq> k) \<and>
     ((\<forall>xs. set (as_completed xs) \<subseteq> set xs) \<longrightarrow>
        (\<forall>m \<in> set (checkpoint_saves (run_task_for_language_gemini env as_completed t ios its ckpt)).
           map_of m k = Some v) \<and>
        (\<forall>r. returned (run_task_for_language_gemini env as_completed t ios its ckpt) = Inr r \<longrightarrow>
           map_of r k = Some v))"
    using b1 b2 b3 b4 d0 d by blast
qed

text \<open>The lemma at a run of each mode, on a checkpoint with one entry.\<close>

lemma loaded_entries_kept_example:
  "map_of (load_checkpoint (Some [(''7'', ''kept'')])) ''7'' = Some ''kept'' \<and>
   batch_returned (process_task_for_language_batch demo_batch_env demo_remote 1 demo_images []
       (Some [(''7'', ''kept'')]))
     = Inr [(''2'', ''a cat''), (''7'', ''kept''), (''10'', ''a dog'')] \<and>
   map_of [(''2'', ''a cat''), (''7'', ''kept''), (''10'', ''a dog'')] ''7'' = Some ''kept'' \<and>
   returned (run_task_for_language_gemini demo_env last_first 1 demo_items []
       (Some [(''7'', ''kept'')]))
     = Inr [(''2'', ''a cat''), (''3'', ''Error: Image encoding failed''), (''7'', ''kept''),
            (''10'', ''a cat'')] \<and>
   map_of [(''2'', ''a cat''), (''3'', ''Error: Image encoding failed''), (''7'', ''kept''),
           (''10'', ''a cat'')] ''7'' = Some ''kept''"
proof -
  let ?ckpt = "Some [(''7'', ''kept'')]"
  let ?brun = "process_task_for_language_batch demo_batch_env demo_remote 1 demo_images [] ?ckpt"
  let ?drun = "run_task_for_language_gemini demo_env last_first 1 demo_items [] ?ckpt"
  have h: "map_of (load_checkpoint ?ckpt) ''7'' = Some ''kept''" by code_simp
  have s: "\<forall>xs. set (last_first xs) \<subseteq> set xs" by (simp add: last_first_def)
  have eb: "batch_returned ?brun = Inr [(''2'', ''a cat''), (''7'', ''kept''), (''10'', ''a dog'')]"
    by code_simp
  have ed: "returned ?drun = Inr [(''2'', ''a cat''), (''3'', ''Error: Image encoding failed''),
      (''7'', ''kept''), (''10'', ''a cat'')]"
    by code_simp
  note t = loaded_entries_kept [where ckpt = ?ckpt and k = "''7''" and v = "''kept''"
      and benv = demo_batch_env and rem = demo_remote and t = 1 and imgs = demo_images
      and pairs = "[]" and env = demo_env and as_completed = last_first and ios = demo_items
      and its = "[]", THEN mp, OF h]
  have rb: "map_of [(''2'', ''a cat''), (''7'', ''kept''), (''10'', ''a dog'')] ''7'' = Some ''kept''"
    by (rule t [THEN conjunct2, THEN conjunct1, rule_format, OF eb])
  have rd: "map_of [(''2'', ''a cat''), (''3'', ''Error: Image encoding failed''), (''7'', ''kept''),
           (''10'', ''a cat'')] ''7'' = Some ''kept''"
    by (rule t [THEN conjunct2, THEN conjunct2, THEN conjunct2, THEN conjunct2, THEN conjunct2,
          THEN mp, OF s, THEN conjunct2, rule_format, OF ed])
  show ?thesis
    by (rule conjI [OF h conjI [OF eb conjI [OF rb conjI [OF ed rd]]]])
qed

text \<open>
  Claim C10 at a concrete run. The directory holds \<open>img02.png\<close> and \<open>image2.jpg\<close>,
  both with the ID 2, and the loaded checkpoint has nine other entries. The batch loader
  keeps the first file of an ID; the direct-mode loader keeps both files, and the
  dispatcher, which compares the IDs with the keys loaded at the start only, sends a
  request for each. The answer for the first file is stored under the key \<open>2\<close> and
  saved, the mapping having ten entries; the answer for the second file then replaces
  it under the same key, and the mapping is saved again. The entry added by the run is
  overwritten within the run, and the first answer is in neither the final checkpoint
  nor the returned mapping.
\<close>

theorem duplicate_id_overwrites_entry:
  "load_data_items twin_fs ''data''
     = ([\<lparr>image_path = ''data/img02.png'', text_path = None\<rparr>,
         \<lparr>image_path = ''data/image2.jpg'', text_path = None\<rparr>], []) \<and>
   get_image_id_from_path ''data/img02.png'' = Some 2 \<and>
   get_image_id_from_path ''data/image2.jpg'' = Some 2 \<and>
   fst (load_images_and_texts twin_fs ''data'') = [''data/img02.png''] \<and>
   map_of (load_checkpoint (Some nine_done)) ''2'' = None \<and>
   checkpoint_saves (run_task_for_language_gemini echo_env in_order 1
       (fst (load_data_items twin_fs ''data'')) (snd (load_data_items twin_fs ''data''))
       (Some nine_done))
     = [nine_done @ [(''2'', ''seen data/img02.png'')],
        nine_done @ [(''2'', ''seen data/image2.jpg'')],
        nine_done @ [(''2'', ''seen data/image2.jpg'')]] \<and>
   returned (run_task_for_language_gemini echo_env in_order 1
       (fst (load_data_items twin_fs ''data'')) (snd (load_data_items twin_fs ''data''))
       (Some nine_done))
     = Inr ((''2'', ''seen data/image2.jpg'') # nine_done) \<and>
   model_requests (run_task_for_language_gemini echo_env in_order 1
       (fst (load_data_items twin_fs ''data'')) (snd (load_data_items twin_fs ''data''))
       (Some nine_done)) = 2"
  by code_simp

section \<open>Keys of the result mapping\<close>

text \<open>
  Claim C3. Every key of a mapping that a run saves is a key of the loaded checkpoint or
  the decimal string of a non-negative integer, in batch mode and, whatever the order in
  which the requests complete, in direct mode; so when the loaded keys are such strings
  the final sort reads every key and the run returns a mapping, all of whose keys are
  such strings. The key under which the direct-mode processor reports an item the
  dispatcher hands it, and every key that batch reconciliation produces from the ID map
  of a prepared chunk, is such a string, and \<^verbatim>\<open>int\<close> reads such a string back.
\<close>

theorem checkpoint_key_invariant:
  "(\<forall>m \<in> set (batch_saves (process_task_for_language_batch benv rem t imgs pairs ckpt)).
      \<forall>k \<in> set (dict_keys m). k \<in> set (dict_keys (load_checkpoint ckpt)) \<or> is_decimal_key k) \<and>
   (list_all is_decimal_key (dict_keys (load_checkpoint ckpt)) \<longrightarrow>
      (\<exists>r. batch_returned (process_task_for_language_batch benv rem t imgs pairs ckpt) = Inr r \<and>
           list_all is_decimal_key (dict_keys r))) \<and>
   ((\<forall>xs. set (as_completed xs) \<subseteq> set xs) \<longrightarrow>
      (\<forall>m \<in> set (checkpoint_saves (run_task_for_language_gemini env as_completed t ios its ckpt)).
         \<forall>k \<in> set (dict_keys m). k \<in> set (dict_keys (load_checkpoint ckpt)) \<or> is_decimal_key k) \<and>
      (list_all is_decimal_key (dict_keys (load_checkpoint ckpt)) \<longrightarrow>
         (\<exists>r. returned (run_task_for_language_gemini env as_completed t ios its ckpt) = Inr r \<and>
              list_all is_decimal_key (dict_keys r)))) \<and>
   (\<forall>it \<in> set (remaining_items res items).
      is_decimal_key (item_key (process_single_item_gemini env t it))) \<and>
   (\<forall>k \<in> set (dict_keys (process_batch_results rem out
                             (snd (prepare_batch_file_image_only benv paths)))).
      is_decimal_key k) \<and>
   (\<forall>k \<in> set (dict_keys (process_batch_results rem out
                             (snd (prepare_batch_file_image_text benv prs)))).
      is_decimal_key k) \<and>
   (is_decimal_key key \<longrightarrow> (\<exists>i. py_int key = Some i \<and> 0 \<le> i \<and> py_str i = key))"
proof -
  let ?loaded = "load_checkpoint ckpt"
  let ?P = "\<lambda>m. \<forall>k \<in> set (dict_keys m). k \<in> set (dict_keys ?loaded) \<or> is_decimal_key k"
  have init: "?P ?loaded" by simp
  have c1: "\<And>m e. ?P m \<Longrightarrow>
      \<forall>x \<in> set (dict_keys e). x \<notin> set (dict_keys ?loaded) \<and> is_decimal_key x \<Longrightarrow>
      ?P (dict_update m e)"
    by (auto simp: dict_update_keys)
  have c2: "\<And>m x y. ?P m \<Longrightarrow> x \<notin> set (dict_keys ?loaded) \<and> is_decimal_key x \<Longrightarrow>
      ?P (dict_set m x y)"
    by (auto simp: dict_set_keys)
  let ?brun = "process_task_for_language_batch benv rem t imgs pairs ckpt"
  let ?drun = "run_task_for_language_gemini env as_completed t ios its ckpt"
  from batch_run_inv [where P = ?P, OF c1 init, of benv rem t imgs pairs]
  obtain mb where mb: "?P mb" "distinct (map fst mb)"
    "batch_returned ?brun = Inr mb \<or> batch_returned ?brun = sorted_results mb"
    "\<forall>s \<in> set (batch_saves ?brun). ?P s" by blast
  have b1: "\<forall>m \<in> set (batch_saves ?brun). ?P m" using mb(4) .
  have b2: "list_all is_decimal_key (dict_keys ?loaded) \<longrightarrow>
      (\<exists>r. batch_returned ?brun = Inr r \<and> list_all is_decimal_key (dict_keys r))"
  proof
    assume "list_all is_decimal_key (dict_keys ?loaded)"
    then have "\<forall>k \<in> set (dict_keys mb). is_decimal_key k"
      using mb(1) by (auto simp: list_all_iff)
    then show "\<exists>r. batch_returned ?brun = Inr r \<and> list_all is_decimal_key (dict_keys r)"
      using mb(2,3) by (rule sorted_results_decimal)
  qed
  have d: "(\<forall>xs. set (as_completed xs) \<subseteq> set xs) \<longrightarrow>
      (\<forall>m \<in> set (checkpoint_saves ?drun). ?P m) \<and>
      (list_all is_decimal_key (dict_keys ?loaded) \<longrightarrow>
         (\<exists>r. returned ?drun = Inr r \<and> list_all is_decimal_key (dict_keys r)))"
  proof
    assume sched: "\<forall>xs. set (as_completed xs) \<subseteq> set xs"
    from direct_run_inv [where P = ?P, OF c2 init sched, of env t ios its]
    obtain md where md: "?P md" "distinct (map fst md)"
      "returned ?drun = Inr md \<or> returned ?drun = sorted_results md"
      "\<forall>s \<in> set (checkpoint_saves ?drun). ?P s" by blast
    have "list_all is_decimal_key (dict_keys ?loaded) \<longrightarrow>
         (\<exists>r. returned ?drun = Inr r \<and> list_all is_decimal_key (dict_keys r))"
    proof
      assume "list_all is_decimal_key (dict_keys ?loaded)"
      then have "\<forall>k \<in> set (dict_keys md). is_decimal_key k"
        using md(1) by (auto simp: list_all_iff)
      then show "\<exists>r. returned ?drun = Inr r \<and> list_all is_decimal_key (dict_keys r)"
        using md(2,3) by (rule sorted_results_decimal)
    qed
    then show "(\<forall>m \<in> set (checkpoint_saves ?drun). ?P m) \<and>
      (list_all is_decimal_key (dict_keys ?loaded) \<longrightarrow>
         (\<exists>r. returned ?drun = Inr r \<and> list_all is_decimal_key (dict_keys r)))"
      using md(4) by blast
  qed
  have i1: "\<forall>it \<in> set (remaining_items res items).
      is_decimal_key (item_key (process_single_item_gemini env t it))"
  proof
    fix it assume "it \<in> set (remaining_items res items)"
    from remaining_items_key [OF this] obtain i where
      i: "get_image_id_from_path (image_path it) = Some i" "0 \<le> i" by blast
    show "is_decimal_key (item_key (process_single_item_gemini env t it))"
      using process_single_item_key [OF i(1), of env t] i(2) by (simp add: is_decimal_key_py_str)
  qed
  have i2: "\<forall>k \<in> set (dict_keys (process_batch_results rem out
                             (snd (prepare_batch_file_image_only benv paths)))).
      is_decimal_key k"
  proof (rule process_batch_results_keys, rule prepare_batch_file_image_only_ids)
    fix p i assume "get_image_id (basename p) = Inr i"
    then show "is_decimal_key (py_str i)"
      by (intro is_decimal_key_py_str) (rule get_image_id_nonneg)
  qed
  have i3: "\<forall>k \<in> set (dict_keys (process_batch_results rem out
                             (snd (prepare_batch_file_image_text benv prs)))).
      is_decimal_key k"
  proof (rule process_batch_results_keys, rule prepare_batch_file_image_text_ids)
    fix pr i assume "get_image_id (basename (fst pr)) = Inr i"
    then show "is_decimal_key (py_str i)"
      by (intro is_decimal_key_py_str) (rule get_image_id_nonneg)
  qed
  have i4: "is_decimal_key key \<longrightarrow> (\<exists>i. py_int key = Some i \<and> 0 \<le> i \<and> py_str i = key)"
    by (auto simp: is_decimal_key_def split: option.splits)
  show ?thesis using b1 b2 d i1 i2 i3 i4 by blast
qed

theorem checkpoint_key_invariant_witness:
  "list_all is_decimal_key (dict_keys (load_checkpoint (Some [(''7'', ''kept'')]))) \<and>
   batch_returned (process_task_for_language_batch demo_batch_env demo_remote 1 demo_images []
       (Some [(''7'', ''kept'')]))
     = Inr [(''2'', ''a cat''), (''7'', ''kept''), (''10'', ''a dog'')] \<and>
   list_all is_decimal_key (dict_keys [(''2'', ''a cat''), (''7'', ''kept''), (''10'', ''a dog'')]) \<and>
   returned (run_task_for_language_gemini demo_env last_first 1 demo_items []
       (Some [(''7'', ''kept'')]))
     = Inr [(''2'', ''a cat''), (''3'', ''Error: Image encoding failed''), (''7'', ''kept''),
            (''10'', ''a cat'')] \<and>
   list_all is_decimal_key (dict_keys [(''2'', ''a cat''), (''3'', ''Error: Image encoding failed''),
       (''7'', ''kept''), (''10'', ''a cat'')]) \<and>
   is_decimal_key ''10'' \<and>
   (\<exists>i. py_int ''10'' = Some i \<and> 0 \<le> i \<and> py_str i = ''10'')"
proof -
  let ?ckpt = "Some [(''7'', ''kept'')]"
  let ?brun = "process_task_for_language_batch demo_batch_env demo_remote 1 demo_images [] ?ckpt"
  let ?drun = "run_task_for_language_gemini demo_env last_first 1 demo_items [] ?ckpt"
  have h: "list_all is_decimal_key (dict_keys (load_checkpoint ?ckpt))" by code_simp
  have s: "\<forall>xs. set (last_first xs) \<subseteq> set xs" by (simp add: last_first_def)
  have k: "is_decimal_key ''10''" by code_simp
  have eb: "batch_returned ?brun = Inr [(''2'', ''a cat''), (''7'', ''kept''), (''10'', ''a dog'')]"
    by code_simp
  have ed: "returned ?drun = Inr [(''2'', ''a cat''), (''3'', ''Error: Image encoding failed''),
      (''7'', ''kept''), (''10'', ''a cat'')]"
    by code_simp
  note t = checkpoint_key_invariant [where ckpt = ?ckpt and key = "''10''"
      and benv = demo_batch_env and rem = demo_remote and t = 1 and imgs = demo_images
      and pairs = "[]" and env = demo_env and as_completed = last_first and ios = demo_items
      and its = "[]"]
  from t [THEN conjunct2, THEN conjunct1, THEN mp, OF h]
  obtain rb where rb: "batch_returned ?brun = Inr rb" "list_all is_decimal_key (dict_keys rb)"
    by (elim exE conjE)
  have "rb = [(''2'', ''a cat''), (''7'', ''kept''), (''10'', ''a dog'')]"
    using rb(1) unfolding eb by (rule sum.inject [THEN iffD1, symmetric])
  then have r1: "list_all is_decimal_key
      (dict_keys [(''2'', ''a cat''), (''7'', ''kept''), (''10'', ''a dog'')])"
    using rb(2) by (rule subst)
  from t [THEN conjunct2, THEN conjunct2, THEN conjunct1, THEN mp, OF s, THEN conjunct2, THEN mp, OF h]
  obtain rd where rd: "returned ?drun = Inr rd" "list_all is_decimal_key (dict_keys rd)"
    by (elim exE conjE)
  have "rd = [(''2'', ''a cat''), (''3'', ''Error: Image encoding failed''),
      (''7'', ''kept''), (''10'', ''a cat'')]"
    using rd(1) unfolding ed by (rule sum.inject [THEN iffD1, symmetric])
  then have r2: "list_all is_decimal_key (dict_keys [(''2'', ''a cat''),
      (''3'', ''Error: Image encoding failed''), (''7'', ''kept''), (''10'', ''a cat'')])"
    using rd(2) by (rule subst)
  have r3: "\<exists>i. py_int ''10'' = Some i \<and> 0 \<le> i \<and> py_str i = ''10''"
    by (rule t [THEN conjunct2, THEN conjunct2, THEN conjunct2, THEN conjunct2, THEN conjunct2,
          THEN conjunct2, THEN mp, OF k])
  show ?thesis
    by (rule conjI [OF h conjI [OF eb conjI [OF r1 conjI [OF ed conjI [OF r2 conjI [OF k r3]]]]]])
qed

section \<open>Retries of a batch chunk\<close>

lemma retry_chunk_submits:
  assumes "r \<le> max_retries"
  shows "\<exists>n. 0 < n \<and> n \<le> Suc max_retries - r \<and>
     submissions (retry_chunk rem fid idm r st) = submissions st @ replicate n fid"
proof (cases "job_output rem fid r")
  case None
  let ?st1 = "st\<lparr>submissions := submissions st @ [fid]\<rparr>"
  have e: "retry_chunk rem fid idm r st = retry_chunk rem fid idm (r + 1) ?st1"
    using assms None by (subst retry_chunk_unfold) simp
  from retry_chunk_result [of rem fid idm "r + 1" ?st1]
  obtain n where n: "submissions (retry_chunk rem fid idm (r + 1) ?st1)
        = submissions ?st1 @ replicate n fid" "n \<le> Suc max_retries - (r + 1)" by blast
  have "submissions (retry_chunk rem fid idm r st) = submissions st @ replicate (Suc n) fid"
    using n(1) by (simp add: e replicate_app_Cons_same)
  moreover have "Suc n \<le> Suc max_retries - r" using n(2) assms by simp
  ultimately show ?thesis by blast
next
  case (Some out)
  have "submissions (retry_chunk rem fid idm r st) = submissions st @ replicate 1 fid"
    using assms Some by (subst retry_chunk_unfold) simp
  moreover have "(1::nat) \<le> Suc max_retries - r" using assms by simp
  ultimately show ?thesis by (intro exI [of _ 1]) simp
qed

text \<open>
  Claim C6. A chunk that has been prepared and uploaded is uploaded once, and every job
  submitted for it, the first and each retry, is created on that one uploaded file, so
  each carries the requests of the file, as many as the first submission. There are at
  least one and at most \<open>max_retries + 1\<close> submissions. When every job ends as failed,
  cancelled or expired, or completes without an output file, there are exactly
  \<open>max_retries + 1\<close> submissions, after which the chunk is given up: the result mapping
  is as it was and nothing is saved. In no case does a key leave the result mapping.
\<close>

theorem chunk_retry_atomicity:
  "fst prepared = Some batch_lines \<and> snd prepared \<noteq> [] \<and>
   upload_batch_file rem batch_lines = Some file_id \<and> file_id \<noteq> [] \<longrightarrow>
     uploads (process_chunk rem st prepared) = uploads st @ [(file_id, batch_lines)] \<and>
     (\<exists>n. 0 < n \<and> n \<le> Suc max_retries \<and>
          submissions (process_chunk rem st prepared) = submissions st @ replicate n file_id) \<and>
     set (dict_keys (task_results st))
       \<subseteq> set (dict_keys (task_results (process_chunk rem st prepared))) \<and>
     ((\<forall>retries \<le> max_retries. job_failed rem file_id retries) \<longrightarrow>
        submissions (process_chunk rem st prepared)
          = submissions st @ replicate (Suc max_retries) file_id \<and>
        task_results (process_chunk rem st prepared) = task_results st \<and>
        saves (process_chunk rem st prepared) = saves st \<and>
        \<not> batch_succeeded (process_chunk rem st prepared))"
proof (intro impI, elim conjE)
  assume p: "fst prepared = Some batch_lines" "snd prepared \<noteq> []"
    "upload_batch_file rem batch_lines = Some file_id" "file_id \<noteq> []"
  let ?st1 = "st\<lparr>uploads := uploads st @ [(file_id, batch_lines)], batch_succeeded := False\<rparr>"
  let ?st' = "retry_chunk rem file_id (snd prepared) 0 ?st1"
  have e: "process_chunk rem st prepared = ?st'"
    using p by (simp add: process_chunk_def)
  note res = retry_chunk_result [of rem file_id "snd prepared" 0 ?st1]
  have a: "uploads ?st' = uploads st @ [(file_id, batch_lines)]"
    using res by simp
  have b: "\<exists>n. 0 < n \<and> n \<le> Suc max_retries \<and>
          submissions ?st' = submissions st @ replicate n file_id"
    using retry_chunk_submits [of 0 rem file_id "snd prepared" ?st1] by simp
  have c: "set (dict_keys (task_results st)) \<subseteq> set (dict_keys (task_results ?st'))"
    using res by (auto simp: dict_update_keys)
  have d: "(\<forall>retries \<le> max_retries. job_failed rem file_id retries) \<longrightarrow>
        submissions ?st' = submissions st @ replicate (Suc max_retries) file_id \<and>
        task_results ?st' = task_results st \<and> saves ?st' = saves st \<and> \<not> batch_succeeded ?st'"
  proof
    assume "\<forall>retries \<le> max_retries. job_failed rem file_id retries"
    then have "\<forall>k. 0 \<le> k \<and> k \<le> max_retries \<longrightarrow> job_output rem file_id k = None"
      by (simp add: job_failed_no_output)
    from retry_chunk_all_failed [OF this, of "snd prepared" ?st1]
    show "submissions ?st' = submissions st @ replicate (Suc max_retries) file_id \<and>
        task_results ?st' = task_results st \<and> saves ?st' = saves st \<and> \<not> batch_succeeded ?st'"
      by simp
  qed
  show "uploads (process_chunk rem st prepared) = uploads st @ [(file_id, batch_lines)] \<and>
     (\<exists>n. 0 < n \<and> n \<le> Suc max_retries \<and>
          submissions (process_chunk rem st prepared) = submissions st @ replicate n file_id) \<and>
     set (dict_keys (task_results st))
       \<subseteq> set (dict_keys (task_results (process_chunk rem st prepared))) \<and>
     ((\<forall>retries \<le> max_retries. job_failed rem file_id retries) \<longrightarrow>
        submissions (process_chunk rem st prepared)
          = submissions st @ replicate (Suc max_retries) file_id \<and>
        task_results (process_chunk rem st prepared) = task_results st \<and>
        saves (process_chunk rem st prepared) = saves st \<and>
        \<not> batch_succeeded (process_chunk rem st prepared))"
    unfolding e using a b c d by (intro conjI)
qed

theorem chunk_retry_atomicity_witness:
  "fst (prepare_batch_file_image_only demo_batch_env demo_images)
     = Some [\<lparr>custom_id = ''img_2_1000'', request_text = ''describe'', request_image = ''QUJD''\<rparr>,
             \<lparr>custom_id = ''img_10_1000'', request_text = ''describe'', request_image = ''QUJD''\<rparr>] \<and>
   uploads (process_chunk failing_remote
       \<lparr>task_results = [(''7'', ''kept'')], saves = [], uploads = [], submissions = [],
        batch_succeeded = False\<rparr>
       (prepare_batch_file_image_only demo_batch_env demo_images))
     = [(''file-1'',
         [\<lparr>custom_id = ''img_2_1000'', request_text = ''describe'', request_image = ''QUJD''\<rparr>,
          \<lparr>custom_id = ''img_10_1000'', request_text = ''describe'', request_image = ''QUJD''\<rparr>])] \<and>
   submissions (process_chunk failing_remote
       \<lparr>task_results = [(''7'', ''kept'')], saves = [], uploads = [], submissions = [],
        batch_succeeded = False\<rparr>
       (prepare_batch_file_image_only demo_batch_env demo_images))
     = [''file-1'', ''file-1'', ''file-1'', ''file-1''] \<and>
   task_results (process_chunk failing_remote
       \<lparr>task_results = [(''7'', ''kept'')], saves = [], uploads = [], submissions = [],
        batch_succeeded = False\<rparr>
       (prepare_batch_file_image_only demo_batch_env demo_images))
     = [(''7'', ''kept'')] \<and>
   saves (process_chunk failing_remote
       \<lparr>task_results = [(''7'', ''kept'')], saves = [], uploads = [], submissions = [],
        batch_succeeded = False\<rparr>
       (prepare_batch_file_image_only demo_batch_env demo_images))
     = []"
proof -
  let ?lines = "[\<lparr>custom_id = ''img_2_1000'', request_text = ''describe'', request_image = ''QUJD''\<rparr>,
             \<lparr>custom_id = ''img_10_1000'', request_text = ''describe'', request_image = ''QUJD''\<rparr>]"
  let ?st = "\<lparr>task_results = [(''7'', ''kept'')], saves = [], uploads = [], submissions = [],
        batch_succeeded = False\<rparr>"
  let ?prep = "prepare_batch_file_image_only demo_batch_env demo_images"
  let ?st' = "process_chunk failing_remote ?st ?prep"
  have h1: "fst ?prep = Some ?lines" by code_simp
  have h2: "snd ?prep \<noteq> []" by code_simp
  have h3: "upload_batch_file failing_remote ?lines = Some ''file-1''"
    by (simp add: failing_remote_def)
  have h4: "''file-1'' \<noteq> []" by simp
  have hf: "\<forall>retries \<le> max_retries. job_failed failing_remote ''file-1'' retries"
    by (simp add: job_failed_def failing_remote_def poll_batch_status_def max_polls_def
        upt_conv_Cons)
  note t = chunk_retry_atomicity [where prepared = ?prep and batch_lines = ?lines
      and rem = failing_remote and file_id = "''file-1''" and st = ?st,
      THEN mp, OF conjI [OF h1 conjI [OF h2 conjI [OF h3 h4]]]]
  note f = t [THEN conjunct2, THEN conjunct2, THEN conjunct2, THEN mp, OF hf]
  have e: "submissions ?st @ replicate (Suc max_retries) ''file-1''
           = [''file-1'', ''file-1'', ''file-1'', ''file-1'']" by code_simp
  have r1: "uploads ?st' = [(''file-1'', ?lines)]"
    using t [THEN conjunct1] by simp
  have r2: "submissions ?st' = [''file-1'', ''file-1'', ''file-1'', ''file-1'']"
    using f [THEN conjunct1] unfolding e .
  have r3: "task_results ?st' = [(''7'', ''kept'')]"
    using f [THEN conjunct2, THEN conjunct1] by simp
  have r4: "saves ?st' = []"
    using f [THEN conjunct2, THEN conjunct2, THEN conjunct1] by simp
  show ?thesis
    by (rule conjI [OF h1 conjI [OF r1 conjI [OF r2 conjI [OF r3 r4]]]])
qed

section \<open>Resuming from a complete checkpoint\<close>

text \<open>
  When the checkpoint has a key for every item, no request is sent and no job is
  submitted: the run returns the loaded mapping as it is, in the order of the file.
\<close>

lemma resume_issues_no_request:
  assumes "\<forall>it \<in> set (if 6 \<le> t then its else ios).
             \<forall>i. get_image_id_from_path (image_path it) = Some i \<longrightarrow>
                 py_str i \<in> set (dict_keys (load_checkpoint ckpt))"
  shows "run_task_for_language_gemini env as_completed t ios its ckpt =
           \<lparr>returned = Inr (load_checkpoint ckpt), checkpoint_saves = [], model_requests = 0\<rparr>"
proof -
  have "remaining_items (load_checkpoint ckpt) (if 6 \<le> t then its else ios) = []"
    using assms by (auto simp: remaining_items_def filter_empty_conv split: option.splits)
  then show ?thesis
    by (simp add: run_task_for_language_gemini_def Let_def dict_of_load_checkpoint)
qed

lemma resume_submits_no_job:
  assumes "\<forall>p \<in> set imgs. \<forall>i. get_image_id (basename p) = Inr i \<longrightarrow>
             py_str i \<in> set (dict_keys (load_checkpoint ckpt))"
      and "\<forall>pr \<in> set pairs. \<forall>i. get_image_id (basename (fst pr)) = Inr i \<longrightarrow>
             py_str i \<in> set (dict_keys (load_checkpoint ckpt))"
  shows "process_task_for_language_batch env rem t imgs pairs ckpt =
           \<lparr>batch_returned = Inr (load_checkpoint ckpt), batch_saves = [], batch_uploads = [],
            batch_submissions = []\<rparr>"
proof -
  have a: "get_remaining_images imgs (dict_keys (load_checkpoint ckpt)) = []"
    using assms(1)
    by (auto simp: get_remaining_images_def filter_empty_conv split: sum.splits error.splits)
  have b: "get_remaining_image_text_pairs pairs (dict_keys (load_checkpoint ckpt)) = []"
    using assms(2)
    by (auto simp: get_remaining_image_text_pairs_def filter_empty_conv
        split: sum.splits error.splits)
  show ?thesis
    by (simp add: process_task_for_language_batch_def Let_def dict_of_load_checkpoint a b)
qed

text \<open>
  Claim C1 at a concrete run. In direct mode the requests of the first run complete last
  first: the run returns the entries in the order 2, 3, 10 and leaves a checkpoint in the
  order 10, 3, 2. Started again on that checkpoint, the run sends no request and returns
  the entries in the order 10, 3, 2. In batch mode the output file lists image 10 before
  image 2: the first run returns 2, 10 and saves 10, 2; the second submits no job and
  returns 10, 2.
\<close>

theorem resumed_run_returns_checkpoint_order:
  "returned (run_task_for_language_gemini demo_env last_first 1 demo_items [] None)
     = Inr [(''2'', ''a cat''), (''3'', ''Error: Image encoding failed''), (''10'', ''a cat'')] \<and>
   checkpoint_saves (run_task_for_language_gemini demo_env last_first 1 demo_items [] None)
     = [[(''10'', ''a cat''), (''3'', ''Error: Image encoding failed''), (''2'', ''a cat'')]] \<and>
   run_task_for_language_gemini demo_env last_first 1 demo_items []
       (Some [(''10'', ''a cat''), (''3'', ''Error: Image encoding failed''), (''2'', ''a cat'')])
     = \<lparr>returned = Inr [(''10'', ''a cat''), (''3'', ''Error: Image encoding failed''),
                        (''2'', ''a cat'')],
        checkpoint_saves = [], model_requests = 0\<rparr> \<and>
   batch_returned (process_task_for_language_batch demo_batch_env demo_remote 1
       [''data/image2.jpg'', ''data/image10.jpg''] [] None)
     = Inr [(''2'', ''a cat''), (''10'', ''a dog'')] \<and>
   batch_saves (process_task_for_language_batch demo_batch_env demo_remote 1
       [''data/image2.jpg'', ''data/image10.jpg''] [] None)
     = [[(''10'', ''a dog''), (''2'', ''a cat'')]] \<and>
   process_task_for_language_batch demo_batch_env demo_remote 1
       [''data/image2.jpg'', ''data/image10.jpg''] []
       (Some [(''10'', ''a dog''), (''2'', ''a cat'')])
     = \<lparr>batch_returned = Inr [(''10'', ''a dog''), (''2'', ''a cat'')], batch_saves = [],
        batch_uploads = [], batch_submissions = []\<rparr>"
  by code_simp

section \<open>Items that cannot be read\<close>















end
